theory Spec2Isabelle
  imports Main "HOL-Library.Sublist" "HOL-Library.AList" "HOL-Library.Char_ord"
    "HOL-Library.List_Lexorder"
begin

section \<open>Strings\<close>

text \<open>
  JavaScript strings are modelled as \<open>string\<close> (lists of characters). The operations
  used by the sources are \<open>startsWith\<close> (\<open>prefix\<close>), \<open>===\<close> (equality), \<open>+\<close> (\<open>@\<close>),
  \<open>split\<close> with a one-character separator, \<open>Array.prototype.join\<close> and \<open>trim\<close>.
\<close>

text \<open>\<open>s.split(c)\<close> for a one-character separator: always at least one piece.\<close>

fun split_on :: "char \<Rightarrow> string \<Rightarrow> string list" where
  "split_on c [] = [[]]"
| "split_on c (x # xs) =
     (if x = c then [] # split_on c xs
      else (case split_on c xs of [] \<Rightarrow> [[x]] | w # ws \<Rightarrow> (x # w) # ws))"

text \<open>\<open>xs.join(sep)\<close>.\<close>

fun join_with :: "string \<Rightarrow> string list \<Rightarrow> string" where
  "join_with sep [] = []"
| "join_with sep [x] = x"
| "join_with sep (x # y # ys) = x @ sep @ join_with sep (y # ys)"

definition is_space :: "char \<Rightarrow> bool" where
  "is_space c = (c \<in> set [CHR '' '', CHR 0x09, CHR 0x0A, CHR 0x0B, CHR 0x0C, CHR 0x0D])"

text \<open>\<open>s.trim()\<close> (ASCII white space).\<close>

definition trim :: "string \<Rightarrow> string" where
  "trim s = rev (dropWhile is_space (rev (dropWhile is_space s)))"

section \<open>The path module of the host (POSIX flavour)\<close>

text \<open>
  \<open>files.ts\<close> and \<open>git.ts\<close> import \<open>join\<close>, \<open>resolve\<close> and \<open>relative\<close> from
  \<open>node:path\<close>. They are modelled on path segments: a path is cut at every \<open>/\<close>, empty
  segments and \<open>.\<close> are dropped, and \<open>..\<close> removes the segment before it.
\<close>

definition isAbsolute :: "string \<Rightarrow> bool" where
  "isAbsolute p = prefix ''/'' p"

fun norm_segs :: "bool \<Rightarrow> string list \<Rightarrow> string list \<Rightarrow> string list" where
  "norm_segs up acc [] = acc"
| "norm_segs up acc (s # ss) =
     (if s = [] \<or> s = ''.'' then norm_segs up acc ss
      else if s = ''..'' then
        (if acc \<noteq> [] \<and> last acc \<noteq> ''..'' then norm_segs up (butlast acc) ss
         else if up then norm_segs up (acc @ [''..'']) ss
         else norm_segs up acc ss)
      else norm_segs up (acc @ [s]) ss)"

definition normalizeString :: "string \<Rightarrow> bool \<Rightarrow> string" where
  "normalizeString p allowAboveRoot =
     join_with ''/'' (norm_segs allowAboveRoot [] (split_on CHR ''/'' p))"

definition normalize_path :: "string \<Rightarrow> string" where
  "normalize_path p =
     (if p = [] then ''.''
      else let absolute = isAbsolute p;
               trailingSeparator = (last p = CHR ''/'');
               np = normalizeString p (\<not> absolute)
           in if np = [] then (if absolute then ''/'' else if trailingSeparator then ''./'' else ''.'')
              else (if absolute then ''/'' else []) @ np @ (if trailingSeparator then ''/'' else []))"

text \<open>\<open>join(a, b)\<close>: the non-empty arguments joined by \<open>/\<close>, then normalised.\<close>

definition join :: "string \<Rightarrow> string \<Rightarrow> string" where
  "join a b =
     (let parts = filter (\<lambda>s. s \<noteq> []) [a, b]
      in if parts = [] then ''.'' else normalize_path (join_with ''/'' parts))"

text \<open>
  \<open>resolve(...args)\<close> reads its arguments from the right until the path built so far is
  absolute; the working directory of the process stands to the left of the first
  argument. \<open>resolve_raw\<close> takes the arguments rightmost first.
\<close>

fun resolve_raw :: "string list \<Rightarrow> string" where
  "resolve_raw [] = []"
| "resolve_raw (p # ps) =
     (if p = [] then resolve_raw ps
      else if isAbsolute p then p @ ''/''
      else resolve_raw ps @ p @ ''/'')"

definition resolve :: "string \<Rightarrow> string list \<Rightarrow> string" where
  "resolve cwd args =
     (let raw = resolve_raw (rev (cwd # args));
          resolvedAbsolute = isAbsolute raw;
          np = normalizeString raw (\<not> resolvedAbsolute)
      in if resolvedAbsolute then ''/'' @ np
         else if np \<noteq> [] then np else ''.'')"

text \<open>The segments of a resolved path.\<close>

definition path_segments :: "string \<Rightarrow> string list" where
  "path_segments p = filter (\<lambda>s. s \<noteq> []) (split_on CHR ''/'' p)"

fun strip_common :: "string list \<Rightarrow> string list \<Rightarrow> string list \<times> string list" where
  "strip_common (x # xs) (y # ys) =
     (if x = y then strip_common xs ys else (x # xs, y # ys))"
| "strip_common xs ys = (xs, ys)"

text \<open>
  \<open>relative(from, to)\<close>: both are resolved, the common leading segments are removed, and
  one \<open>..\<close> stands for every segment left of \<open>from\<close>.
\<close>

definition relative :: "string \<Rightarrow> string \<Rightarrow> string \<Rightarrow> string" where
  "relative cwd from to =
     (if from = to then []
      else let f = resolve cwd [from]; t = resolve cwd [to]
           in if f = t then []
              else (case strip_common (path_segments f) (path_segments t) of
                      (fs, ts) \<Rightarrow> join_with ''/'' (replicate (length fs) ''..'' @ ts)))"

section \<open>The file system of the host\<close>

text \<open>
  What \<open>statSync\<close>, \<open>readdirSync\<close> and \<open>readFileSync\<close> see: a tree of named entries.
  \<open>Locked\<close> is a directory whose listing fails, \<open>Special\<close> an entry that is neither a
  regular file nor a directory (a socket, a device, a dangling link).
\<close>

datatype node = File string | Dir "(string \<times> node) list" | Locked | Special

datatype stat = Directory | RegularFile | OtherKind

record host =
  cwd :: string
  disk :: node

fun lookup :: "node \<Rightarrow> string list \<Rightarrow> node option" where
  "lookup n [] = Some n"
| "lookup (Dir es) (s # ss) = (case map_of es s of None \<Rightarrow> None | Some m \<Rightarrow> lookup m ss)"
| "lookup n (s # ss) = None"

definition node_at :: "host \<Rightarrow> string \<Rightarrow> node option" where
  "node_at h p = lookup (disk h) (path_segments (resolve (cwd h) [p]))"

fun kind :: "node \<Rightarrow> stat" where
  "kind (File c) = RegularFile"
| "kind (Dir es) = Directory"
| "kind Locked = Directory"
| "kind Special = OtherKind"

text \<open>\<open>statSync(p)\<close>: \<open>None\<close> when it throws (nothing at \<open>p\<close>).\<close>

definition statSync :: "host \<Rightarrow> string \<Rightarrow> stat option" where
  "statSync h p = map_option kind (node_at h p)"

definition isDirectory :: "stat \<Rightarrow> bool" where
  "isDirectory st = (st = Directory)"

definition isFile :: "stat \<Rightarrow> bool" where
  "isFile st = (st = RegularFile)"

text \<open>\<open>readFileSync(p, "utf-8")\<close>: \<open>None\<close> when it throws.\<close>

definition readFileSync :: "host \<Rightarrow> string \<Rightarrow> string option" where
  "readFileSync h p = (case node_at h p of Some (File c) \<Rightarrow> Some c | _ \<Rightarrow> None)"

section \<open>files.ts\<close>

subsection \<open>collectFiles\<close>

text \<open>
  \<open>collectFiles(dir, projectRoot)\<close> lists \<open>dir\<close> and walks its entries. In the model
  \<open>wd\<close> is the working directory of the process, which \<open>relative\<close> reads, and the node
  is what \<open>readdirSync(dir)\<close> finds at \<open>dir\<close>; a listing that throws is caught and gives
  no entries. \<open>collectEntries\<close> is the \<open>for\<close> loop over the entries: an entry is a
  directory or a regular file as its \<open>Dirent\<close> says, and anything else is passed over.
\<close>

fun collectFiles :: "string \<Rightarrow> node \<Rightarrow> string \<Rightarrow> string \<Rightarrow> string list"
  and collectEntries :: "string \<Rightarrow> (string \<times> node) list \<Rightarrow> string \<Rightarrow> string \<Rightarrow> string list"
where
  "collectFiles wd (Dir es) dir projectRoot = collectEntries wd es dir projectRoot"
| "collectFiles wd (File c) dir projectRoot = []"
| "collectFiles wd Locked dir projectRoot = []"
| "collectFiles wd Special dir projectRoot = []"
| "collectEntries wd [] dir projectRoot = []"
| "collectEntries wd ((name, n) # es) dir projectRoot =
     (let fullPath = join dir name
      in (if isDirectory (kind n) then
            (if name = ''node_modules'' \<or> name = ''.git'' then []
             else collectFiles wd n fullPath projectRoot)
          else if isFile (kind n) then [relative wd projectRoot fullPath]
          else [])
         @ collectEntries wd es dir projectRoot)"

subsection \<open>resolveEditablePatterns, resolveEditableFiles\<close>

definition resolveEditablePatterns :: "host \<Rightarrow> string list \<Rightarrow> string \<Rightarrow> string list" where
  "resolveEditablePatterns h patterns projectRoot =
     map (\<lambda>p. resolve (cwd h) [projectRoot, p]) patterns"

text \<open>\<open>[...new Set(files)]\<close>: the first occurrence of every element, in order.\<close>

fun dedup_first :: "string list \<Rightarrow> string list \<Rightarrow> string list" where
  "dedup_first seen [] = []"
| "dedup_first seen (x # xs) =
     (if x \<in> set seen then dedup_first seen xs else x # dedup_first (x # seen) xs)"

text \<open>The body of the loop of \<open>resolveEditableFiles\<close>: what one resolved pattern adds.\<close>

definition filesOfPattern :: "host \<Rightarrow> string \<Rightarrow> string \<Rightarrow> string list" where
  "filesOfPattern h projectRoot absPath =
     (case statSync h absPath of
        None \<Rightarrow> []
      | Some st \<Rightarrow>
          if isDirectory st then
            (case node_at h absPath of Some n \<Rightarrow> collectFiles (cwd h) n absPath projectRoot | None \<Rightarrow> [])
          else if isFile st then [relative (cwd h) projectRoot absPath]
          else [])"

definition resolveEditableFiles :: "host \<Rightarrow> string list \<Rightarrow> string \<Rightarrow> string list" where
  "resolveEditableFiles h resolvedPatterns projectRoot =
     sort (dedup_first [] (concat (map (filesOfPattern h projectRoot) resolvedPatterns)))"

subsection \<open>isPathAllowed\<close>

text \<open>
  The loop of \<open>isPathAllowed\<close> over the resolved patterns, for the resolved path of the
  request; the \<open>None\<close> branch is the \<open>catch\<close> of a \<open>statSync\<close> that throws.
\<close>

fun allowedBy :: "host \<Rightarrow> string \<Rightarrow> string list \<Rightarrow> bool" where
  "allowedBy h absPath [] = False"
| "allowedBy h absPath (patternAbs # rest) =
     (case statSync h patternAbs of
        Some st \<Rightarrow>
          (if isDirectory st then
             (if prefix (patternAbs @ ''/'') absPath then True else allowedBy h absPath rest)
           else
             (if absPath = patternAbs then True else allowedBy h absPath rest))
      | None \<Rightarrow>
          (if prefix (patternAbs @ ''/'') absPath then True
           else if absPath = patternAbs then True
           else allowedBy h absPath rest))"

definition isPathAllowed :: "host \<Rightarrow> string \<Rightarrow> string list \<Rightarrow> string \<Rightarrow> bool" where
  "isPathAllowed h requestedPath resolvedPatterns projectRoot =
     (if prefix ''/'' requestedPath then False
      else allowedBy h (resolve (cwd h) [projectRoot, requestedPath]) resolvedPatterns)"

section \<open>git.ts\<close>

subsection \<open>The data of simple-git and the effects of a request\<close>

record ChangedFile =
  path :: string
  status :: string
  insertions :: int
  deletions :: int

text \<open>
  \<open>StatusResult\<close> of simple-git, the five lists \<open>mapStatus\<close> reads; an entry of
  \<open>renamed\<close> is the pair of its \<open>from\<close> and \<open>to\<close> paths.
\<close>

record StatusResult =
  modified :: "string list"
  created :: "string list"
  deleted :: "string list"
  renamed :: "(string \<times> string) list"
  not_added :: "string list"

text \<open>One file of a diff summary: a text file with its counts, or a binary file.\<close>

datatype DiffResultFile = DiffResultTextFile string int int | DiffResultBinaryFile string

text \<open>\<open>Map<string, { ins, del }>\<close>, in the order the keys were first set.\<close>

type_synonym stats_map = "(string \<times> int \<times> int) list"

text \<open>
  The version-control client, by the base directory of the handle and the arguments:
  \<open>None\<close> when the promise rejects.
\<close>

record git_cli =
  revparse :: "string \<Rightarrow> string option"
  git_status :: "string \<Rightarrow> StatusResult option"
  diffSummary :: "string \<Rightarrow> string list \<Rightarrow> DiffResultFile list option"
  git_diff :: "string \<Rightarrow> string list \<Rightarrow> string option"

text \<open>
  What a request does outside the process: a call of the git client (\<open>revparse\<close>,
  \<open>status\<close>, \<open>diffSummary\<close>, \<open>diff\<close>, with the base directory of the handle), or a
  file read.
\<close>

datatype effect =
    RevParse string
  | Status string
  | DiffSummary string "string list"
  | Diff string "string list"
  | ReadFile string

subsection \<open>mapStatus\<close>

definition push :: "stats_map \<Rightarrow> string \<Rightarrow> string \<Rightarrow> ChangedFile" where
  "push stats p st =
     (case map_of stats p of
        Some (i, d) \<Rightarrow> \<lparr>path = p, status = st, insertions = i, deletions = d\<rparr>
      | None \<Rightarrow> \<lparr>path = p, status = st, insertions = 0, deletions = 0\<rparr>)"

text \<open>The filter with the \<open>seen\<close> set: the first entry of every path is kept.\<close>

fun dedupe :: "string list \<Rightarrow> ChangedFile list \<Rightarrow> ChangedFile list" where
  "dedupe seen [] = []"
| "dedupe seen (f # fs) =
     (if path f \<in> set seen then dedupe seen fs else f # dedupe (path f # seen) fs)"

text \<open>
  \<open>Array.prototype.sort\<close> with the comparator \<open>a.path.localeCompare(b.path)\<close>: a stable
  sort. The comparison of the host's locale is a parameter of the model.
\<close>

fun insert_by :: "(string \<Rightarrow> string \<Rightarrow> int) \<Rightarrow> ChangedFile \<Rightarrow> ChangedFile list \<Rightarrow> ChangedFile list" where
  "insert_by localeCompare x [] = [x]"
| "insert_by localeCompare x (y # ys) =
     (if localeCompare (path x) (path y) \<le> 0 then x # y # ys
      else y # insert_by localeCompare x ys)"

definition sort_by_path :: "(string \<Rightarrow> string \<Rightarrow> int) \<Rightarrow> ChangedFile list \<Rightarrow> ChangedFile list" where
  "sort_by_path localeCompare fs = foldr (insert_by localeCompare) fs []"

definition pushed :: "StatusResult \<Rightarrow> stats_map \<Rightarrow> ChangedFile list" where
  "pushed result stats =
     map (\<lambda>f. push stats f ''M'') (modified result)
     @ map (\<lambda>f. push stats f ''A'') (created result)
     @ map (\<lambda>f. push stats f ''D'') (deleted result)
     @ map (\<lambda>f. push stats (snd f) ''R'') (renamed result)
     @ map (\<lambda>f. push stats f ''?'') (not_added result)"

definition mapStatus :: "(string \<Rightarrow> string \<Rightarrow> int) \<Rightarrow> StatusResult \<Rightarrow> stats_map \<Rightarrow> ChangedFile list" where
  "mapStatus localeCompare result stats =
     sort_by_path localeCompare (dedupe [] (pushed result stats))"

subsection \<open>getDiffStats\<close>

fun accumulate :: "stats_map \<Rightarrow> DiffResultFile list \<Rightarrow> stats_map" where
  "accumulate stats [] = stats"
| "accumulate stats (DiffResultBinaryFile f # fs) = accumulate stats fs"
| "accumulate stats (DiffResultTextFile f i d # fs) =
     (case (case map_of stats f of Some e \<Rightarrow> e | None \<Rightarrow> (0, 0)) of
        (ei, ed) \<Rightarrow> accumulate (AList.update f (ei + i, ed + d) stats) fs)"

fun countUntracked :: "host \<Rightarrow> string \<Rightarrow> stats_map \<Rightarrow> string list \<Rightarrow> stats_map" where
  "countUntracked h repoRoot stats [] = stats"
| "countUntracked h repoRoot stats (filePath # rest) =
     (case readFileSync h (join repoRoot filePath) of
        Some content \<Rightarrow>
          countUntracked h repoRoot
            (AList.update filePath (int (length (split_on CHR 0x0A content)), 0) stats) rest
      | None \<Rightarrow> countUntracked h repoRoot stats rest)"

record DiffStats =
  stats :: stats_map
  totalInsertions :: int
  totalDeletions :: int

definition getDiffStats ::
  "git_cli \<Rightarrow> host \<Rightarrow> string \<Rightarrow> string \<Rightarrow> string list \<Rightarrow> DiffStats \<times> effect list" where
  "getDiffStats g h gitDir repoRoot untrackedFiles =
     (let calls = [DiffSummary gitDir [''--cached''], DiffSummary gitDir []]
      in case (diffSummary g gitDir [''--cached''], diffSummary g gitDir []) of
           (Some staged, Some unstaged) \<Rightarrow>
             (let st = countUntracked h repoRoot (accumulate (accumulate [] staged) unstaged)
                         untrackedFiles
              in (\<lparr>stats = st,
                   totalInsertions = sum_list (map (\<lambda>e. fst (snd e)) st),
                   totalDeletions = sum_list (map (\<lambda>e. snd (snd e)) st)\<rparr>,
                  calls @ map (\<lambda>f. ReadFile (join repoRoot f)) untrackedFiles))
         | _ \<Rightarrow> (\<lparr>stats = [], totalInsertions = 0, totalDeletions = 0\<rparr>, calls))"

subsection \<open>getFileDiff\<close>

fun digits :: "nat \<Rightarrow> string" where
  "digits n = (if n < 10 then [''0123456789'' ! n]
               else digits (n div 10) @ [''0123456789'' ! (n mod 10)])"

declare digits.simps [simp del]

definition synthesized :: "string \<Rightarrow> string \<Rightarrow> string" where
  "synthesized filePath content =
     (let lines = split_on CHR 0x0A content;
          added = join_with [CHR 0x0A] (map (\<lambda>l. CHR ''+'' # l) lines)
      in ''--- /dev/null'' @ [CHR 0x0A] @ ''+++ b/'' @ filePath @ [CHR 0x0A]
         @ ''@@ -0,0 +1,'' @ digits (length lines) @ '' @@'' @ [CHR 0x0A] @ added)"

definition getFileDiff ::
  "git_cli \<Rightarrow> host \<Rightarrow> string \<Rightarrow> string \<Rightarrow> string \<Rightarrow> string \<times> effect list" where
  "getFileDiff g h gitDir repoRoot filePath =
     (let absPath = resolve (cwd h) [repoRoot, filePath];
          c1 = Diff gitDir [''--cached'', ''--'', filePath];
          c2 = Diff gitDir [''--'', filePath]
      in if \<not> prefix (repoRoot @ ''/'') absPath \<and> absPath \<noteq> repoRoot then ([], [])
         else case git_diff g gitDir [''--cached'', ''--'', filePath] of
                None \<Rightarrow> ([], [c1])
              | Some staged \<Rightarrow>
                  (case git_diff g gitDir [''--'', filePath] of
                     None \<Rightarrow> ([], [c1, c2])
                   | Some unstaged \<Rightarrow>
                       if staged \<noteq> [] \<and> unstaged \<noteq> [] then
                         (staged @ [CHR 0x0A] @ unstaged, [c1, c2])
                       else if staged \<noteq> [] then (staged, [c1, c2])
                       else if unstaged \<noteq> [] then (unstaged, [c1, c2])
                       else (case readFileSync h (join repoRoot filePath) of
                               Some content \<Rightarrow>
                                 (synthesized filePath content,
                                  [c1, c2, ReadFile (join repoRoot filePath)])
                             | None \<Rightarrow> ([], [c1, c2, ReadFile (join repoRoot filePath)]))))"

subsection \<open>findRepoRoot, ensureGit\<close>

definition findRepoRoot :: "git_cli \<Rightarrow> string \<Rightarrow> string option \<times> effect list" where
  "findRepoRoot g dir =
     (map_option trim (revparse g dir), [RevParse dir])"

text \<open>
  The two variables \<open>registerGitRoutes\<close> closes over. The handle \<open>git\<close> is modelled by
  its base directory.
\<close>

record server =
  repoRoot :: "string option"
  git :: "string option"

definition initial :: server where
  "initial = \<lparr>repoRoot = None, git = None\<rparr>"

definition ensureGit ::
  "git_cli \<Rightarrow> string \<Rightarrow> server \<Rightarrow> (string \<times> string) option \<times> server \<times> effect list" where
  "ensureGit g projectRoot s =
     (case (git s, repoRoot s) of
        (Some gitDir, Some (c # cs)) \<Rightarrow> (Some (gitDir, c # cs), s, [])
      | _ \<Rightarrow>
          (case findRepoRoot g projectRoot of
             (Some (c # cs), eff) \<Rightarrow>
               (Some (c # cs, c # cs), s\<lparr>repoRoot := Some (c # cs), git := Some (c # cs)\<rparr>, eff)
           | (r, eff) \<Rightarrow> (None, s\<lparr>repoRoot := r\<rparr>, eff)))"

subsection \<open>The routes\<close>

datatype json =
    ErrorBody string
  | StatusBody "ChangedFile list" bool "int option" "int option"
  | DiffBody string "string option" "bool option"

text \<open>
  \<open>StatusBody files git insertions deletions\<close> is \<open>{ files, git, insertions, deletions }\<close>
  and \<open>DiffBody diff path git\<close> is \<open>{ diff, path, git }\<close>; \<open>None\<close> is a key the object
  does not have.
\<close>

record response =
  statusCode :: nat
  body :: json

definition statusRoute ::
  "(string \<Rightarrow> string \<Rightarrow> int) \<Rightarrow> git_cli \<Rightarrow> host \<Rightarrow> string \<Rightarrow> string \<Rightarrow> server
     \<Rightarrow> response \<times> server \<times> effect list" where
  "statusRoute localeCompare g h projectRoot httpMethod s =
     (if httpMethod \<noteq> ''GET'' then
        (\<lparr>statusCode = 405, body = ErrorBody ''Method not allowed''\<rparr>, s, [])
      else case ensureGit g projectRoot s of
        (None, s1, e1) \<Rightarrow> (\<lparr>statusCode = 200, body = StatusBody [] False None None\<rparr>, s1, e1)
      | (Some (gitDir, root), s1, e1) \<Rightarrow>
          (case git_status g gitDir of
             None \<Rightarrow>
               (\<lparr>statusCode = 200, body = StatusBody [] False None None\<rparr>, s1,
                e1 @ [Status gitDir])
           | Some result \<Rightarrow>
               (case getDiffStats g h gitDir root (not_added result) of
                  (ds, e2) \<Rightarrow>
                    (\<lparr>statusCode = 200,
                      body = StatusBody (mapStatus localeCompare result (stats ds)) True
                               (Some (totalInsertions ds)) (Some (totalDeletions ds))\<rparr>,
                     s1, e1 @ [Status gitDir] @ e2))))"

definition wholeDiff :: "git_cli \<Rightarrow> string \<Rightarrow> response \<times> effect list" where
  "wholeDiff g gitDir =
     (let c1 = Diff gitDir [''--cached'']; c2 = Diff gitDir []
      in case git_diff g gitDir [''--cached''] of
           None \<Rightarrow> (\<lparr>statusCode = 200, body = DiffBody [] None None\<rparr>, [c1])
         | Some staged \<Rightarrow>
             (case git_diff g gitDir [] of
                None \<Rightarrow> (\<lparr>statusCode = 200, body = DiffBody [] None None\<rparr>, [c1, c2])
              | Some unstaged \<Rightarrow>
                  (\<lparr>statusCode = 200,
                    body = DiffBody
                      (if staged \<noteq> [] \<and> unstaged \<noteq> [] then staged @ [CHR 0x0A] @ unstaged
                       else if staged \<noteq> [] then staged else unstaged) None None\<rparr>,
                   [c1, c2])))"

text \<open>
  \<open>filePath\<close> is \<open>url.searchParams.get("path")\<close>: \<open>None\<close> for \<open>null\<close>; the empty string is
  falsy as \<open>null\<close> is.
\<close>

definition diffRoute ::
  "git_cli \<Rightarrow> host \<Rightarrow> string \<Rightarrow> string \<Rightarrow> string option \<Rightarrow> server
     \<Rightarrow> response \<times> server \<times> effect list" where
  "diffRoute g h projectRoot httpMethod filePath s =
     (if httpMethod \<noteq> ''GET'' then
        (\<lparr>statusCode = 405, body = ErrorBody ''Method not allowed''\<rparr>, s, [])
      else case ensureGit g projectRoot s of
        (None, s1, e1) \<Rightarrow> (\<lparr>statusCode = 200, body = DiffBody [] None (Some False)\<rparr>, s1, e1)
      | (Some (gitDir, root), s1, e1) \<Rightarrow>
          (case filePath of
             Some (c # cs) \<Rightarrow>
               (if prefix ''/'' (c # cs) then
                  (\<lparr>statusCode = 400, body = ErrorBody ''Absolute paths not allowed''\<rparr>, s1, e1)
                else case getFileDiff g h gitDir root (c # cs) of
                  (d, e2) \<Rightarrow>
                    (\<lparr>statusCode = 200, body = DiffBody d (Some (c # cs)) None\<rparr>, s1, e1 @ e2))
           | _ \<Rightarrow> (case wholeDiff g gitDir of (r, e2) \<Rightarrow> (r, s1, e1 @ e2))))"

section \<open>Example hosts\<close>

definition example_host :: host where
  "example_host =
     \<lparr>cwd = ''/proj'',
      disk = Dir [(''proj'', Dir [
        (''src'', Dir [
           (''a.ts'', File ''export {}''),
           (''node_modules'', Dir [(''m.js'', File ''m'')]),
           (''lib'', Dir [(''b.ts'', File ''b''), (''.git'', Dir [(''HEAD'', File ''ref'')])])]),
        (''README.md'', File ''readme''),
        (''node_modules'', Dir [(''pkg'', Dir [(''index.js'', File ''i'')])])])]\<rparr>"

text \<open>
  The working tree of the repository's own test of the git routes: one committed file
  that was modified, and untracked files.
\<close>

definition repo_host :: host where
  "repo_host =
     \<lparr>cwd = ''/repo'',
      disk = Dir [(''repo'', Dir [
        (''existing.txt'', File (''hello'' @ [CHR 0x0A] @ ''world'' @ [CHR 0x0A])),
        (''new-file.txt'', File (''brand new'' @ [CHR 0x0A])),
        (''notes.txt'', File (''one'' @ [CHR 0x0A] @ ''two'')),
        (''subdir'', Dir [(''nested.txt'', File (''nested'' @ [CHR 0x0A]))])])]\<rparr>"

definition example_status :: StatusResult where
  "example_status =
     \<lparr>modified = [''existing.txt'', ''both.txt''], created = [''both.txt''], deleted = [],
      renamed = [(''old.txt'', ''moved.txt'')],
      not_added = [''new-file.txt'', ''notes.txt'', ''locked.txt'']\<rparr>"

definition example_repo :: git_cli where
  "example_repo =
     \<lparr>revparse = (\<lambda>dir. if dir = ''/repo'' \<or> prefix ''/repo/'' dir then Some (''/repo'' @ [CHR 0x0A]) else None),
      git_status = (\<lambda>dir. Some example_status),
      diffSummary = (\<lambda>dir args.
         if args = [''--cached''] then Some [DiffResultBinaryFile ''logo.png'']
         else Some [DiffResultTextFile ''existing.txt'' 1 0]),
      git_diff = (\<lambda>dir args.
         if args = [''--cached'', ''--'', ''existing.txt''] then Some ''S''
         else if args = [''--'', ''existing.txt''] then Some ''U''
         else Some [])\<rparr>"

text \<open>A directory outside every repository: each call of the client rejects.\<close>

definition no_repo :: git_cli where
  "no_repo =
     \<lparr>revparse = (\<lambda>dir. None), git_status = (\<lambda>dir. None),
      diffSummary = (\<lambda>dir args. None), git_diff = (\<lambda>dir args. None)\<rparr>"

text \<open>A repository whose diff summaries fail while everything else answers.\<close>

definition no_summary :: git_cli where
  "no_summary = example_repo\<lparr>diffSummary := (\<lambda>dir args. None)\<rparr>"

text \<open>The comparison of strings by their characters' codes, one possible \<open>localeCompare\<close>.\<close>

definition codeunit_compare :: "string \<Rightarrow> string \<Rightarrow> int" where
  "codeunit_compare a b = (if a < b then - 1 else if a = b then 0 else 1)"

text \<open>
  A comparison that reads capital letters as small ones, as the collation behind
  \<open>localeCompare\<close> does at its first level: it puts \<open>package.json\<close> before
  \<open>README.md\<close>, where the order of the codes puts every capital letter first.
\<close>

definition fold_case :: "string \<Rightarrow> string" where
  "fold_case s =
     map (\<lambda>c. case map_of (zip ''ABCDEFGHIJKLMNOPQRSTUVWXYZ'' ''abcdefghijklmnopqrstuvwxyz'') c of
                 Some l \<Rightarrow> l | None \<Rightarrow> c) s"

definition caseless_compare :: "string \<Rightarrow> string \<Rightarrow> int" where
  "caseless_compare a b =
     (if fold_case a < fold_case b then - 1 else if fold_case a = fold_case b then 0 else 1)"

text \<open>Three modified files at the top of a project.\<close>

definition mixed_status :: StatusResult where
  "mixed_status =
     \<lparr>modified = [''README.md'', ''package.json'', ''Makefile''], created = [''Makefile''],
      deleted = [], renamed = [], not_added = []\<rparr>"

section \<open>Notions used by the properties\<close>

text \<open>
  The response shape \<open>{ files, git, insertions, deletions }\<close> with both counts present
  and not negative.
\<close>

definition status_shape :: "json \<Rightarrow> bool" where
  "status_shape b =
     (case b of StatusBody fs gt (Some i) (Some d) \<Rightarrow> 0 \<le> i \<and> 0 \<le> d | _ \<Rightarrow> False)"

text \<open>
  The number of lines of a text: every newline ends a line, and characters after the last
  newline are one more line.
\<close>

definition line_count :: "string \<Rightarrow> nat" where
  "line_count s =
     length (filter (\<lambda>c. c = CHR 0x0A) s) + (if s = [] \<or> last s = CHR 0x0A then 0 else 1)"

text \<open>The handle and the root are both set: \<open>ensureGit\<close> answers without a call.\<close>

definition handle_cached :: "server \<Rightarrow> bool" where
  "handle_cached s = (git s \<noteq> None \<and> repoRoot s \<noteq> None \<and> repoRoot s \<noteq> Some [])"

text \<open>Every count of a statistics map, and of a diff summary, is at least zero.\<close>

definition nonneg :: "stats_map \<Rightarrow> bool" where
  "nonneg st = (\<forall>e \<in> set st. 0 \<le> fst (snd e) \<and> 0 \<le> snd (snd e))"

definition text_counts_nonneg :: "DiffResultFile list \<Rightarrow> bool" where
  "text_counts_nonneg fs =
     (\<forall>f \<in> set fs. case f of DiffResultTextFile n i d \<Rightarrow> 0 \<le> i \<and> 0 \<le> d | DiffResultBinaryFile n \<Rightarrow> True)"

text \<open>The names of the directories that \<open>collectFiles\<close> does not enter.\<close>

definition skipped_name :: "string \<Rightarrow> bool" where
  "skipped_name s = (s = ''node_modules'' \<or> s = ''.git'')"

text \<open>
  The name of a directory entry: not empty, without \<open>/\<close>, and neither \<open>.\<close> nor \<open>..\<close>.
  A tree is well formed when all its entries have such names.
\<close>

definition valid_name :: "string \<Rightarrow> bool" where
  "valid_name s = (s \<noteq> [] \<and> CHR ''/'' \<notin> set s \<and> s \<noteq> ''.'' \<and> s \<noteq> ''..'')"

fun wf_node :: "node \<Rightarrow> bool"
  and wf_entries :: "(string \<times> node) list \<Rightarrow> bool"
where
  "wf_node (Dir es) = wf_entries es"
| "wf_node (File c) = True"
| "wf_node Locked = True"
| "wf_node Special = True"
| "wf_entries [] = True"
| "wf_entries ((name, n) # es) = (valid_name name \<and> wf_node n \<and> wf_entries es)"

text \<open>The absolute path with the given segments.\<close>

definition abs_path :: "string list \<Rightarrow> string" where
  "abs_path ds = CHR ''/'' # join_with ''/'' ds"

section \<open>Properties of files.ts\<close>

lemma allowedBy_iff:
  "allowedBy h a pats \<longleftrightarrow>
     (\<exists>pat \<in> set pats.
        case statSync h pat of
          Some st \<Rightarrow> if isDirectory st then prefix (pat @ ''/'') a else a = pat
        | None \<Rightarrow> prefix (pat @ ''/'') a \<or> a = pat)"
proof (induction pats)
  case Nil
  show ?case by simp
next
  case (Cons p ps)
  show ?case
  proof (cases "statSync h p")
    case None
    with Cons show ?thesis by auto
  next
    case (Some st)
    with Cons show ?thesis by (cases "isDirectory st") auto
  qed
qed

lemma allowedBy_member:
  "pat \<in> set pats \<Longrightarrow>
   (case statSync h pat of
      Some st \<Rightarrow> if isDirectory st then prefix (pat @ ''/'') a else a = pat
    | None \<Rightarrow> prefix (pat @ ''/'') a \<or> a = pat) \<Longrightarrow> allowedBy h a pats"
  unfolding allowedBy_iff by blast

lemma allowedBy_single:
  "allowedBy h a [pat] \<longleftrightarrow>
     (case statSync h pat of
        Some st \<Rightarrow> if isDirectory st then prefix (pat @ ''/'') a else a = pat
      | None \<Rightarrow> prefix (pat @ ''/'') a \<or> a = pat)"
  by (auto split: option.splits)

lemma not_prefix_self_slash: "\<not> prefix (p @ ''/'') p"
  by (auto simp: prefix_def)

lemma allowedBy_directory_itself:
  "statSync h pat = Some Directory \<Longrightarrow> allowedBy h pat ps = allowedBy h pat (removeAll pat ps)"
  by (induction ps) (auto simp: isDirectory_def not_prefix_self_slash split: option.splits)

text \<open>
  C1. A requested path that starts with \<open>/\<close> is refused whatever the host, the patterns
  and the project root are: the result is fixed before a pattern is looked at.
\<close>

theorem isPathAllowed_absolute:
  "prefix ''/'' p \<Longrightarrow> isPathAllowed h p pats root = False"
  by (simp add: isPathAllowed_def)

theorem isPathAllowed_absolute_witness:
  "prefix ''/'' ''/etc/passwd'' \<and> allowedBy example_host ''/etc/passwd'' [''/etc'']
   \<and> isPathAllowed example_host ''/etc/passwd'' [''/etc''] ''/proj'' = False"
proof -
  have p: "prefix ''/'' ''/etc/passwd''" by simp
  have a: "allowedBy example_host ''/etc/passwd'' [''/etc'']" by code_simp
  from p a isPathAllowed_absolute [OF p, of example_host "[''/etc'']" "''/proj''"]
  show ?thesis by simp
qed

text \<open>
  C2. For a relative query, resolved against the project root, \<open>isPathAllowed\<close> answers
  \<open>True\<close> exactly when some pattern contains the resolved path: a pattern that is a
  directory on disk, when the resolved path starts with the pattern and a separator; a
  pattern that is on disk and no directory (a file), when the two paths are equal; a
  pattern that is absent from disk, when either test holds. So a path below an allowed
  directory is allowed, and a path beside it that no pattern contains is not.
\<close>

theorem isPathAllowed_containment:
  "\<not> prefix ''/'' q \<Longrightarrow> a = resolve (cwd h) [root, q] \<Longrightarrow>
     isPathAllowed h q pats root \<longleftrightarrow>
       (\<exists>pat \<in> set pats.
          (statSync h pat = Some Directory \<and> prefix (pat @ ''/'') a) \<or>
          ((statSync h pat = Some RegularFile \<or> statSync h pat = Some OtherKind) \<and> a = pat) \<or>
          (statSync h pat = None \<and> (prefix (pat @ ''/'') a \<or> a = pat)))"
proof -
  assume q: "\<not> prefix ''/'' q" and a: "a = resolve (cwd h) [root, q]"
  have one: "(case statSync h pat of
                Some st \<Rightarrow> if isDirectory st then prefix (pat @ ''/'') a else a = pat
              | None \<Rightarrow> prefix (pat @ ''/'') a \<or> a = pat) \<longleftrightarrow>
             ((statSync h pat = Some Directory \<and> prefix (pat @ ''/'') a) \<or>
              ((statSync h pat = Some RegularFile \<or> statSync h pat = Some OtherKind) \<and> a = pat) \<or>
              (statSync h pat = None \<and> (prefix (pat @ ''/'') a \<or> a = pat)))" for pat
  proof (cases "statSync h pat")
    case None
    then show ?thesis by simp
  next
    case (Some st)
    then show ?thesis by (cases st) (simp_all add: isDirectory_def)
  qed
  from q a have "isPathAllowed h q pats root \<longleftrightarrow> allowedBy h a pats"
    by (simp add: isPathAllowed_def)
  then show ?thesis
    unfolding allowedBy_iff by (simp only: one)
qed

theorem isPathAllowed_containment_witness:
  "\<not> prefix ''/'' ''src/lib/b.ts''
   \<and> statSync example_host ''/proj/src'' = Some Directory
   \<and> statSync example_host ''/proj/README.md'' = Some RegularFile
   \<and> statSync example_host ''/proj/gone'' = None
   \<and> resolve (cwd example_host) [''/proj'', ''src/lib/b.ts''] = ''/proj/src/lib/b.ts''
   \<and> isPathAllowed example_host ''src/lib/b.ts'' [''/proj/src'', ''/proj/README.md'', ''/proj/gone''] ''/proj''
   \<and> isPathAllowed example_host ''README.md'' [''/proj/src'', ''/proj/README.md'', ''/proj/gone''] ''/proj''
   \<and> isPathAllowed example_host ''gone/new.ts'' [''/proj/src'', ''/proj/README.md'', ''/proj/gone''] ''/proj''
   \<and> resolve (cwd example_host) [''/proj'', ''srcs/b.ts''] = ''/proj/srcs/b.ts''
   \<and> \<not> isPathAllowed example_host ''srcs/b.ts'' [''/proj/src'', ''/proj/README.md'', ''/proj/gone''] ''/proj''
   \<and> resolve (cwd example_host) [''/proj'', ''../../etc/passwd''] = ''/etc/passwd''
   \<and> \<not> isPathAllowed example_host ''../../etc/passwd'' [''/proj/src'', ''/proj/README.md'', ''/proj/gone''] ''/proj''
   \<and> \<not> isPathAllowed example_host ''README.md.bak'' [''/proj/src'', ''/proj/README.md'', ''/proj/gone''] ''/proj''"
proof -
  let ?pats = "[''/proj/src'', ''/proj/README.md'', ''/proj/gone'']"
  have q: "\<not> prefix ''/'' ''src/lib/b.ts''" "\<not> prefix ''/'' ''README.md''"
    "\<not> prefix ''/'' ''gone/new.ts''" "\<not> prefix ''/'' ''srcs/b.ts''"
    "\<not> prefix ''/'' ''../../etc/passwd''" "\<not> prefix ''/'' ''README.md.bak''"
    by simp_all
  have d: "statSync example_host ''/proj/src'' = Some Directory" by code_simp
  have f: "statSync example_host ''/proj/README.md'' = Some RegularFile" by code_simp
  have n: "statSync example_host ''/proj/gone'' = None" by code_simp
  have r1: "''/proj/src/lib/b.ts'' = resolve (cwd example_host) [''/proj'', ''src/lib/b.ts'']"
    by code_simp
  have r2: "''/proj/README.md'' = resolve (cwd example_host) [''/proj'', ''README.md'']"
    by code_simp
  have r3: "''/proj/gone/new.ts'' = resolve (cwd example_host) [''/proj'', ''gone/new.ts'']"
    by code_simp
  have r4: "''/proj/srcs/b.ts'' = resolve (cwd example_host) [''/proj'', ''srcs/b.ts'']"
    by code_simp
  have r5: "''/etc/passwd'' = resolve (cwd example_host) [''/proj'', ''../../etc/passwd'']"
    by code_simp
  have r6: "''/proj/README.md.bak'' = resolve (cwd example_host) [''/proj'', ''README.md.bak'']"
    by code_simp
  have 1: "isPathAllowed example_host ''src/lib/b.ts'' ?pats ''/proj''"
    using isPathAllowed_containment [OF q(1) r1, of ?pats] d f n by simp
  have 2: "isPathAllowed example_host ''README.md'' ?pats ''/proj''"
    using isPathAllowed_containment [OF q(2) r2, of ?pats] d f n by simp
  have 3: "isPathAllowed example_host ''gone/new.ts'' ?pats ''/proj''"
    using isPathAllowed_containment [OF q(3) r3, of ?pats] d f n by simp
  have 4: "\<not> isPathAllowed example_host ''srcs/b.ts'' ?pats ''/proj''"
    using isPathAllowed_containment [OF q(4) r4, of ?pats] d f n by simp
  have 5: "\<not> isPathAllowed example_host ''../../etc/passwd'' ?pats ''/proj''"
    using isPathAllowed_containment [OF q(5) r5, of ?pats] d f n by simp
  have 6: "\<not> isPathAllowed example_host ''README.md.bak'' ?pats ''/proj''"
    using isPathAllowed_containment [OF q(6) r6, of ?pats] d f n by simp
  from q(1) d f n r1 r4 r5 1 2 3 4 5 6 show ?thesis by simp
qed

text \<open>
  C10. A pattern that is a directory on disk does not admit a query that resolves to the
  pattern's own path: the answer is the one the other patterns give, and with that pattern
  alone it is \<open>False\<close>. A pattern that is absent from disk admits such a query.
\<close>

theorem isPathAllowed_pattern_itself:
  "\<not> prefix ''/'' q \<Longrightarrow> resolve (cwd h) [root, q] = pat \<Longrightarrow>
     (statSync h pat = Some Directory \<longrightarrow>
        isPathAllowed h q [pat] root = False \<and>
        isPathAllowed h q pats root = isPathAllowed h q (removeAll pat pats) root) \<and>
     (statSync h pat = None \<and> pat \<in> set pats \<longrightarrow> isPathAllowed h q pats root = True)"
proof -
  assume q: "\<not> prefix ''/'' q" and r: "resolve (cwd h) [root, q] = pat"
  have absent: "allowedBy h pat pats" if "statSync h pat = None" "pat \<in> set pats"
    using that by (auto intro: allowedBy_member)
  show ?thesis
    using q r allowedBy_directory_itself [of h pat pats] allowedBy_directory_itself [of h pat "[pat]"] absent
    by (auto simp: isPathAllowed_def)
qed

theorem isPathAllowed_pattern_itself_witness:
  "\<not> prefix ''/'' ''src''
   \<and> resolve (cwd example_host) [''/proj'', ''src''] = ''/proj/src''
   \<and> statSync example_host ''/proj/src'' = Some Directory
   \<and> isPathAllowed example_host ''src'' [''/proj/src''] ''/proj'' = False
   \<and> \<not> prefix ''/'' ''gone''
   \<and> resolve (cwd example_host) [''/proj'', ''gone''] = ''/proj/gone''
   \<and> statSync example_host ''/proj/gone'' = None
   \<and> isPathAllowed example_host ''gone'' [''/proj/gone''] ''/proj'' = True"
proof -
  have q: "\<not> prefix ''/'' ''src''" "\<not> prefix ''/'' ''gone''" by simp_all
  have r1: "resolve (cwd example_host) [''/proj'', ''src''] = ''/proj/src''"
    by code_simp
  have r2: "resolve (cwd example_host) [''/proj'', ''gone''] = ''/proj/gone''"
    by code_simp
  have d: "statSync example_host ''/proj/src'' = Some Directory" by code_simp
  have n: "statSync example_host ''/proj/gone'' = None" by code_simp
  from isPathAllowed_pattern_itself [OF q(1) r1, of "[]"] d
  have 1: "isPathAllowed example_host ''src'' [''/proj/src''] ''/proj'' = False"
    by simp
  from isPathAllowed_pattern_itself [OF q(2) r2, of "[''/proj/gone'']"] n
  have 2: "isPathAllowed example_host ''gone'' [''/proj/gone''] ''/proj'' = True"
    by simp
  from q r1 r2 d n 1 2 show ?thesis by simp
qed

section \<open>Properties of git.ts\<close>

subsection \<open>ensureGit\<close>

lemma ensureGit_cached:
  "handle_cached s \<Longrightarrow> \<exists>d r. ensureGit g root s = (Some (d, r), s, [])"
  by (auto simp: handle_cached_def ensureGit_def split: option.splits list.splits)

lemma ensureGit_not_cached:
  "\<not> handle_cached s \<Longrightarrow>
     ensureGit g root s =
       (case map_option trim (revparse g root) of
          Some (c # cs) \<Rightarrow>
            (Some (c # cs, c # cs), s\<lparr>repoRoot := Some (c # cs), git := Some (c # cs)\<rparr>, [RevParse root])
        | r \<Rightarrow> (None, s\<lparr>repoRoot := r\<rparr>, [RevParse root]))"
  by (auto simp: handle_cached_def ensureGit_def findRepoRoot_def split: option.splits list.splits)

lemma ensureGit_no_repo:
  "git s = None \<Longrightarrow> revparse g root = None \<Longrightarrow>
     ensureGit g root s = (None, s\<lparr>repoRoot := None\<rparr>, [RevParse root])"
  by (simp add: ensureGit_not_cached handle_cached_def)

lemma ensureGit_effects:
  "snd (snd (ensureGit g root s)) = (if handle_cached s then [] else [RevParse root])"
proof (cases "handle_cached s")
  case True
  from ensureGit_cached [OF this, of g root] show ?thesis using True by auto
next
  case False
  then show ?thesis
    by (simp add: ensureGit_not_cached split: option.splits list.splits)
qed

text \<open>
  C5. When the discovery of the repository root fails (the project directory is in no
  repository, or the tool cannot run) and no handle was made before, a \<open>GET\<close> of the
  status route answers \<open>{ files: [], git: false }\<close> and a \<open>GET\<close> of the diff route
  answers \<open>{ diff: "", git: false }\<close>, with or without a path: the rejection is turned
  into a response, and the handle stays unset for the next request.
\<close>

theorem not_a_repository:
  "git s = None \<Longrightarrow> revparse g projectRoot = None \<Longrightarrow>
     fst (statusRoute lc g h projectRoot ''GET'' s)
       = \<lparr>statusCode = 200, body = StatusBody [] False None None\<rparr> \<and>
     fst (diffRoute g h projectRoot ''GET'' filePath s)
       = \<lparr>statusCode = 200, body = DiffBody [] None (Some False)\<rparr> \<and>
     git (fst (snd (statusRoute lc g h projectRoot ''GET'' s))) = None \<and>
     git (fst (snd (diffRoute g h projectRoot ''GET'' filePath s))) = None"
  by (simp add: statusRoute_def diffRoute_def ensureGit_no_repo)

theorem not_a_repository_witness:
  "git initial = None \<and> revparse no_repo ''/proj'' = None \<and>
   fst (statusRoute codeunit_compare no_repo example_host ''/proj'' ''GET'' initial)
     = \<lparr>statusCode = 200, body = StatusBody [] False None None\<rparr> \<and>
   fst (diffRoute no_repo example_host ''/proj'' ''GET'' (Some ''src/a.ts'') initial)
     = \<lparr>statusCode = 200, body = DiffBody [] None (Some False)\<rparr>"
proof -
  have 1: "git initial = None" by (simp add: initial_def)
  have 2: "revparse no_repo ''/proj'' = None" by (simp add: no_repo_def)
  from not_a_repository [OF 1 2, of codeunit_compare example_host "Some ''src/a.ts''"] 1 2
  show ?thesis by simp
qed

text \<open>
  A client that fails after the root was found is caught as well: a status call that
  rejects gives \<open>{ files: [], git: false }\<close>, and diffs that reject give an empty diff,
  for a relative path and without a path.
\<close>

lemma client_failure_after_discovery:
  assumes "fst (ensureGit g projectRoot s) = Some (d, root)"
  shows "git_status g d = None \<longrightarrow>
           fst (statusRoute lc g h projectRoot ''GET'' s)
             = \<lparr>statusCode = 200, body = StatusBody [] False None None\<rparr>"
    and "(\<forall>args. git_diff g d args = None) \<longrightarrow> \<not> prefix ''/'' (c # cs) \<longrightarrow>
           fst (diffRoute g h projectRoot ''GET'' (Some (c # cs)) s)
             = \<lparr>statusCode = 200, body = DiffBody [] (Some (c # cs)) None\<rparr>"
    and "(\<forall>args. git_diff g d args = None) \<longrightarrow>
           fst (diffRoute g h projectRoot ''GET'' None s)
             = \<lparr>statusCode = 200, body = DiffBody [] None None\<rparr>"
  using assms
  by (cases "ensureGit g projectRoot s";
      simp add: statusRoute_def diffRoute_def getFileDiff_def wholeDiff_def Let_def)+

text \<open>
  C3, as the code has it. A \<open>GET\<close> of the diff route with a path that starts with \<open>/\<close>
  reads no file and asks for no diff: its only call is the discovery of the repository
  root, made when the handle is not set yet. When a root is known the answer is the client
  error 400; when none is found it is \<open>{ diff: "", git: false }\<close>.
\<close>

theorem diffRoute_absolute:
  "prefix ''/'' fp \<Longrightarrow>
     snd (snd (diffRoute g h projectRoot ''GET'' (Some fp) s))
       = (if handle_cached s then [] else [RevParse projectRoot]) \<and>
     fst (diffRoute g h projectRoot ''GET'' (Some fp) s)
       = (if fst (ensureGit g projectRoot s) = None
          then \<lparr>statusCode = 200, body = DiffBody [] None (Some False)\<rparr>
          else \<lparr>statusCode = 400, body = ErrorBody ''Absolute paths not allowed''\<rparr>)"
proof -
  assume p: "prefix ''/'' fp"
  then obtain cs where fp: "fp = CHR ''/'' # cs" by (cases fp) auto
  obtain c s1 e where eg: "ensureGit g projectRoot s = (c, s1, e)" by (cases "ensureGit g projectRoot s") auto
  from ensureGit_effects [of g projectRoot s] eg
  have e: "e = (if handle_cached s then [] else [RevParse projectRoot])" by simp
  show ?thesis
    using eg e by (cases c) (auto simp: diffRoute_def fp)
qed


text \<open>
  The first request of a server calls the git client before it looks at the path, and
  outside a repository the answer is no client error.
\<close>

theorem diffRoute_absolute_counterexample:
  "prefix ''/'' ''/etc/passwd'' \<and>
   snd (snd (diffRoute example_repo repo_host ''/repo'' ''GET'' (Some ''/etc/passwd'') initial))
     = [RevParse ''/repo''] \<and>
   fst (diffRoute no_repo repo_host ''/repo'' ''GET'' (Some ''/etc/passwd'') initial)
     = \<lparr>statusCode = 200, body = DiffBody [] None (Some False)\<rparr>"
  by code_simp

theorem diffRoute_absolute_witness:
  "prefix ''/'' ''/etc/passwd'' \<and>
   diffRoute example_repo repo_host ''/repo'' ''GET'' (Some ''/etc/passwd'') initial
     = (\<lparr>statusCode = 400, body = ErrorBody ''Absolute paths not allowed''\<rparr>,
        \<lparr>repoRoot = Some ''/repo'', git = Some ''/repo''\<rparr>, [RevParse ''/repo'']) \<and>
   snd (snd (diffRoute example_repo repo_host ''/repo'' ''GET'' (Some ''/etc/passwd'')
     \<lparr>repoRoot = Some ''/repo'', git = Some ''/repo''\<rparr>)) = []"
proof -
  have p: "prefix ''/'' ''/etc/passwd''" by simp
  have e: "ensureGit example_repo ''/repo'' initial
             = (Some (''/repo'', ''/repo''), \<lparr>repoRoot = Some ''/repo'', git = Some ''/repo''\<rparr>, [RevParse ''/repo''])"
    by code_simp
  have n: "\<not> handle_cached initial" by (simp add: handle_cached_def initial_def)
  have c: "handle_cached \<lparr>repoRoot = Some ''/repo'', git = Some ''/repo''\<rparr>"
    by (simp add: handle_cached_def)
  have s: "fst (snd (diffRoute example_repo repo_host ''/repo'' ''GET'' (Some ''/etc/passwd'') initial))
             = \<lparr>repoRoot = Some ''/repo'', git = Some ''/repo''\<rparr>"
    by code_simp
  from diffRoute_absolute [OF p, of example_repo repo_host "''/repo''" initial] e n
  have 1: "snd (snd (diffRoute example_repo repo_host ''/repo'' ''GET'' (Some ''/etc/passwd'') initial))
             = [RevParse ''/repo'']"
    and 2: "fst (diffRoute example_repo repo_host ''/repo'' ''GET'' (Some ''/etc/passwd'') initial)
             = \<lparr>statusCode = 400, body = ErrorBody ''Absolute paths not allowed''\<rparr>"
    by simp_all
  from diffRoute_absolute [OF p, of example_repo repo_host "''/repo''"
         "\<lparr>repoRoot = Some ''/repo'', git = Some ''/repo''\<rparr>"] c
  have 3: "snd (snd (diffRoute example_repo repo_host ''/repo'' ''GET'' (Some ''/etc/passwd'')
             \<lparr>repoRoot = Some ''/repo'', git = Some ''/repo''\<rparr>)) = []"
    by simp
  from p 1 2 3 s show ?thesis by (simp add: prod_eq_iff)
qed

subsection \<open>Counts are not negative\<close>

lemma set_update_subset: "set (AList.update k v al) \<subseteq> insert (k, v) (set al)"
  by (induction al) auto

lemma nonneg_update:
  "nonneg st \<Longrightarrow> 0 \<le> i \<Longrightarrow> 0 \<le> d \<Longrightarrow> nonneg (AList.update k (i, d) st)"
  using set_update_subset [of k "(i, d)" st] by (fastforce simp: nonneg_def)

lemma nonneg_lookup:
  "nonneg st \<Longrightarrow> map_of st k = Some (i, d) \<Longrightarrow> 0 \<le> i \<and> 0 \<le> d"
  by (auto simp: nonneg_def dest!: map_of_SomeD)

lemma nonneg_accumulate:
  "nonneg st \<Longrightarrow> text_counts_nonneg fs \<Longrightarrow> nonneg (accumulate st fs)"
proof (induction st fs rule: accumulate.induct)
  case (1 stats)
  then show ?case by simp
next
  case (2 stats f fs)
  then show ?case by (simp add: text_counts_nonneg_def)
next
  case (3 stats f i d fs)
  from "3.prems" have id: "0 \<le> i" "0 \<le> d" and rest: "text_counts_nonneg fs"
    by (simp_all add: text_counts_nonneg_def)
  show ?case
  proof (cases "map_of stats f")
    case None
    with 3 id rest show ?thesis by (simp add: nonneg_update)
  next
    case (Some e)
    obtain ei ed where e: "e = (ei, ed)" by (cases e)
    from nonneg_lookup [OF "3.prems"(1)] Some e have "0 \<le> ei" "0 \<le> ed" by auto
    with 3 id rest Some e show ?thesis by (simp add: nonneg_update)
  qed
qed

lemma nonneg_countUntracked:
  "nonneg st \<Longrightarrow> nonneg (countUntracked h root st ps)"
  by (induction ps arbitrary: st) (auto simp: nonneg_update split: option.splits)

lemma nonneg_sums:
  "nonneg st \<Longrightarrow> 0 \<le> sum_list (map (\<lambda>e. fst (snd e)) st) \<and> 0 \<le> sum_list (map (\<lambda>e. snd (snd e)) st)"
  by (auto simp: nonneg_def intro!: sum_list_nonneg)

lemma getDiffStats_nonneg:
  assumes "\<And>args fs. diffSummary g d args = Some fs \<Longrightarrow> text_counts_nonneg fs"
  shows "nonneg (stats (fst (getDiffStats g h d root ps))) \<and>
         0 \<le> totalInsertions (fst (getDiffStats g h d root ps)) \<and>
         0 \<le> totalDeletions (fst (getDiffStats g h d root ps))"
proof (cases "diffSummary g d [''--cached'']")
  case None
  then show ?thesis by (simp add: getDiffStats_def nonneg_def)
next
  case a: (Some staged)
  show ?thesis
  proof (cases "diffSummary g d []")
    case None
    with a show ?thesis by (simp add: getDiffStats_def nonneg_def)
  next
    case b: (Some unstaged)
    have "nonneg []" by (simp add: nonneg_def)
    then have "nonneg (countUntracked h root (accumulate (accumulate [] staged) unstaged) ps)"
      using assms [OF a] assms [OF b] by (intro nonneg_countUntracked nonneg_accumulate)
    then show ?thesis
      using a b nonneg_sums by (simp add: getDiffStats_def Let_def)
  qed
qed

subsection \<open>The elements of mapStatus\<close>

lemma set_insert_by: "set (insert_by lc x ys) = insert x (set ys)"
  by (induction ys) auto

lemma set_sort_by_path: "set (sort_by_path lc fs) = set fs"
  unfolding sort_by_path_def by (induction fs) (auto simp: set_insert_by)

lemma set_dedupe_subset: "set (dedupe seen fs) \<subseteq> set fs"
  by (induction seen fs rule: dedupe.induct) auto

lemma push_nonneg:
  "nonneg st \<Longrightarrow> 0 \<le> insertions (push st p x) \<and> 0 \<le> deletions (push st p x)"
  by (auto simp: push_def dest: nonneg_lookup split: option.splits)

lemma mapStatus_nonneg:
  "nonneg st \<Longrightarrow> f \<in> set (mapStatus lc r st) \<Longrightarrow> 0 \<le> insertions f \<and> 0 \<le> deletions f"
  using set_dedupe_subset [of "[]" "pushed r st"]
  by (auto simp: mapStatus_def set_sort_by_path pushed_def push_nonneg)

subsection \<open>The shape of the status response\<close>

text \<open>
  C9, as the code has it. A \<open>GET\<close> of the status route always answers with status 200
  and an object with \<open>files\<close> and \<open>git\<close>. With \<open>git: true\<close> the object also has
  \<open>insertions\<close> and \<open>deletions\<close>, which are not negative (as no count of a file is)
  when the counts of the diff summaries are not. With \<open>git: false\<close> the object is
  \<open>{ files: [], git: false }\<close> and has neither \<open>insertions\<close> nor \<open>deletions\<close>.
\<close>

theorem statusRoute_shape:
  assumes "\<And>dir args fs. diffSummary g dir args = Some fs \<Longrightarrow> text_counts_nonneg fs"
  shows "statusCode (fst (statusRoute lc g h projectRoot ''GET'' s)) = 200 \<and>
         (case body (fst (statusRoute lc g h projectRoot ''GET'' s)) of
            StatusBody fs gt i d \<Rightarrow>
              if gt then status_shape (StatusBody fs gt i d) \<and>
                         (\<forall>f \<in> set fs. 0 \<le> insertions f \<and> 0 \<le> deletions f)
              else fs = [] \<and> i = None \<and> d = None
          | _ \<Rightarrow> False)"
proof -
  obtain c s1 e where eg: "ensureGit g projectRoot s = (c, s1, e)"
    by (cases "ensureGit g projectRoot s") auto
  show ?thesis
  proof (cases c)
    case None
    with eg show ?thesis by (simp add: statusRoute_def)
  next
    case (Some ctx)
    obtain d root where ctx: "ctx = (d, root)" by (cases ctx)
    show ?thesis
    proof (cases "git_status g d")
      case None
      with eg Some ctx show ?thesis by (simp add: statusRoute_def)
    next
      case (Some result)
      obtain ds e2 where gs: "getDiffStats g h d root (not_added result) = (ds, e2)"
        by (cases "getDiffStats g h d root (not_added result)")
      from getDiffStats_nonneg [of g d h root "not_added result"] assms gs
      have n: "nonneg (stats ds)" "0 \<le> totalInsertions ds" "0 \<le> totalDeletions ds"
        by auto
      from mapStatus_nonneg [OF n(1)]
      have "\<forall>f \<in> set (mapStatus lc result (stats ds)). 0 \<le> insertions f \<and> 0 \<le> deletions f"
        by blast
      with eg \<open>c = Some ctx\<close> ctx Some gs n show ?thesis
        by (simp add: statusRoute_def status_shape_def)
    qed
  qed
qed

text \<open>Outside a repository the response has no \<open>insertions\<close> and no \<open>deletions\<close>.\<close>

theorem statusRoute_shape_counterexample:
  "\<not> status_shape (body (fst (statusRoute codeunit_compare no_repo repo_host ''/repo'' ''GET'' initial)))"
  by code_simp

lemma example_repo_counts:
  "diffSummary example_repo dir args = Some fs \<Longrightarrow> text_counts_nonneg fs"
  by (auto simp: example_repo_def text_counts_nonneg_def split: if_splits)

theorem statusRoute_shape_witness:
  "body (fst (statusRoute codeunit_compare example_repo repo_host ''/repo'' ''GET'' initial))
     = StatusBody
         [\<lparr>path = ''both.txt'', status = ''M'', insertions = 0, deletions = 0\<rparr>,
          \<lparr>path = ''existing.txt'', status = ''M'', insertions = 1, deletions = 0\<rparr>,
          \<lparr>path = ''locked.txt'', status = ''?'', insertions = 0, deletions = 0\<rparr>,
          \<lparr>path = ''moved.txt'', status = ''R'', insertions = 0, deletions = 0\<rparr>,
          \<lparr>path = ''new-file.txt'', status = ''?'', insertions = 2, deletions = 0\<rparr>,
          \<lparr>path = ''notes.txt'', status = ''?'', insertions = 2, deletions = 0\<rparr>]
         True (Some 5) (Some 0) \<and>
   status_shape (body (fst (statusRoute codeunit_compare example_repo repo_host ''/repo'' ''GET'' initial)))"
proof -
  have b: "body (fst (statusRoute codeunit_compare example_repo repo_host ''/repo'' ''GET'' initial))
     = StatusBody
         [\<lparr>path = ''both.txt'', status = ''M'', insertions = 0, deletions = 0\<rparr>,
          \<lparr>path = ''existing.txt'', status = ''M'', insertions = 1, deletions = 0\<rparr>,
          \<lparr>path = ''locked.txt'', status = ''?'', insertions = 0, deletions = 0\<rparr>,
          \<lparr>path = ''moved.txt'', status = ''R'', insertions = 0, deletions = 0\<rparr>,
          \<lparr>path = ''new-file.txt'', status = ''?'', insertions = 2, deletions = 0\<rparr>,
          \<lparr>path = ''notes.txt'', status = ''?'', insertions = 2, deletions = 0\<rparr>]
         True (Some 5) (Some 0)"
    by code_simp
  from statusRoute_shape [of example_repo codeunit_compare repo_host "''/repo''" initial,
      OF example_repo_counts] b
  show ?thesis by simp
qed

subsection \<open>split and join\<close>

lemma split_on_not_Nil [simp]: "split_on c s \<noteq> []"
  by (induction s) (auto split: list.splits)

lemma split_on_Cons_other:
  "x \<noteq> c \<Longrightarrow> split_on c (x # xs) = (x # hd (split_on c xs)) # tl (split_on c xs)"
  by (cases "split_on c xs") auto

lemma split_on_append_sep:
  "split_on c (a @ c # b) = split_on c a @ split_on c b"
proof (induction a)
  case Nil
  show ?case by simp
next
  case (Cons x a)
  show ?case
  proof (cases "x = c")
    case True
    with Cons show ?thesis by simp
  next
    case False
    obtain w ws where s: "split_on c a = w # ws" by (cases "split_on c a") auto
    with False Cons show ?thesis by simp
  qed
qed

lemma split_on_no_sep: "c \<notin> set s \<Longrightarrow> split_on c s = [s]"
  by (induction s) auto

lemma split_on_pieces: "w \<in> set (split_on c s) \<Longrightarrow> c \<notin> set w"
proof (induction s arbitrary: w)
  case Nil
  then show ?case by simp
next
  case (Cons x s)
  show ?case
  proof (cases "x = c")
    case True
    with Cons show ?thesis by auto
  next
    case False
    obtain v vs where s: "split_on c s = v # vs" by (cases "split_on c s") auto
    with False Cons.prems have "w = x # v \<or> w \<in> set vs" by auto
    with Cons.IH s False show ?thesis by auto
  qed
qed

lemma split_on_join_with:
  "xs \<noteq> [] \<Longrightarrow> \<forall>x \<in> set xs. c \<notin> set x \<Longrightarrow> split_on c (join_with [c] xs) = xs"
proof (induction xs)
  case Nil
  then show ?case by simp
next
  case (Cons x xs)
  show ?case
  proof (cases xs)
    case Nil
    with Cons.prems show ?thesis by (simp add: split_on_no_sep)
  next
    case (Cons y ys)
    with Cons.IH Cons.prems have "split_on c (join_with [c] (y # ys)) = y # ys" by simp
    with Cons Cons.prems show ?thesis
      by (simp add: split_on_append_sep split_on_no_sep)
  qed
qed

lemma length_split_on: "length (split_on c s) = Suc (length (filter (\<lambda>x. x = c) s))"
  by (induction s) (auto split: list.splits)

subsection \<open>getFileDiff\<close>

lemma split_synthesized:
  "split_on CHR 0x0A (synthesized fp content) =
     ''--- /dev/null'' # split_on CHR 0x0A (''+++ b/'' @ fp)
     @ [''@@ -0,0 +1,'' @ digits (length (split_on CHR 0x0A content)) @ '' @@'']
     @ map (\<lambda>l. CHR ''+'' # l) (split_on CHR 0x0A content)"
proof -
  let ?lines = "split_on CHR 0x0A content"
  have plus: "\<forall>x \<in> set (map (\<lambda>l. CHR ''+'' # l) ?lines). CHR 0x0A \<notin> set x"
    by (auto dest: split_on_pieces)
  have j: "split_on CHR 0x0A (join_with [CHR 0x0A] (map (\<lambda>l. CHR ''+'' # l) ?lines))
             = map (\<lambda>l. CHR ''+'' # l) ?lines"
    by (rule split_on_join_with [OF _ plus]) simp
  have d: "CHR 0x0A \<notin> set (digits n)" for n
    by (induction n rule: digits.induct) (subst digits.simps, auto simp: nth_Cons' )
  have hunk: "split_on CHR 0x0A (''@@ -0,0 +1,'' @ digits (length ?lines) @ '' @@'')
                = [''@@ -0,0 +1,'' @ digits (length ?lines) @ '' @@'']"
    by (rule split_on_no_sep) (use d in auto)
  have "synthesized fp content =
          ''--- /dev/null'' @ CHR 0x0A # ((''+++ b/'' @ fp) @ CHR 0x0A #
            ((''@@ -0,0 +1,'' @ digits (length ?lines) @ '' @@'') @ CHR 0x0A #
               join_with [CHR 0x0A] (map (\<lambda>l. CHR ''+'' # l) ?lines)))"
    by (simp add: synthesized_def Let_def)
  then show ?thesis
    by (simp only: split_on_append_sep j hunk) (simp add: split_on_no_sep)
qed


text \<open>
  C7, as the code has it. For a path that resolves inside the repository root, when both
  diffs of the path are obtained: if both are non-empty the result is the staged diff, a
  newline, and the unstaged diff; if one is non-empty the result is that one; if both are
  empty and the file can be read, the result is a synthesized diff whose lines are
  \<open>--- /dev/null\<close>, the \<open>+++ b/\<close> line of the path, the hunk header, and every piece of
  the content between newlines with \<open>+\<close> before it; if both are empty and the file
  cannot be read, the result is the empty string.
\<close>

theorem getFileDiff_cases:
  "prefix (root @ ''/'') (resolve (cwd h) [root, fp]) \<or> resolve (cwd h) [root, fp] = root \<Longrightarrow>
   git_diff g d [''--cached'', ''--'', fp] = Some staged \<Longrightarrow>
   git_diff g d [''--'', fp] = Some unstaged \<Longrightarrow>
   (staged \<noteq> [] \<and> unstaged \<noteq> [] \<longrightarrow>
      fst (getFileDiff g h d root fp) = staged @ [CHR 0x0A] @ unstaged) \<and>
   (staged \<noteq> [] \<and> unstaged = [] \<longrightarrow> fst (getFileDiff g h d root fp) = staged) \<and>
   (staged = [] \<and> unstaged \<noteq> [] \<longrightarrow> fst (getFileDiff g h d root fp) = unstaged) \<and>
   (staged = [] \<and> unstaged = [] \<longrightarrow>
      (case readFileSync h (join root fp) of
         None \<Rightarrow> fst (getFileDiff g h d root fp) = []
       | Some content \<Rightarrow>
           split_on CHR 0x0A (fst (getFileDiff g h d root fp)) =
             ''--- /dev/null'' # split_on CHR 0x0A (''+++ b/'' @ fp)
             @ [''@@ -0,0 +1,'' @ digits (length (split_on CHR 0x0A content)) @ '' @@'']
             @ map (\<lambda>l. CHR ''+'' # l) (split_on CHR 0x0A content)))"
  by (auto simp: getFileDiff_def Let_def split_synthesized split: option.splits)

text \<open>
  The two diffs are joined by a newline, and an unreadable file with no diff gives the
  empty string, in which no header stands.
\<close>

theorem getFileDiff_cases_counterexample:
  "git_diff example_repo ''/repo'' [''--cached'', ''--'', ''existing.txt''] = Some ''S'' \<and>
   git_diff example_repo ''/repo'' [''--'', ''existing.txt''] = Some ''U'' \<and>
   fst (getFileDiff example_repo repo_host ''/repo'' ''/repo'' ''existing.txt'') \<noteq> ''S'' @ ''U'' \<and>
   git_diff example_repo ''/repo'' [''--cached'', ''--'', ''locked.txt''] = Some [] \<and>
   git_diff example_repo ''/repo'' [''--'', ''locked.txt''] = Some [] \<and>
   fst (getFileDiff example_repo repo_host ''/repo'' ''/repo'' ''locked.txt'') = []"
  by code_simp

theorem getFileDiff_cases_witness:
  "prefix (''/repo'' @ ''/'') (resolve (cwd repo_host) [''/repo'', ''existing.txt'']) \<and>
   git_diff example_repo ''/repo'' [''--cached'', ''--'', ''existing.txt''] = Some ''S'' \<and>
   git_diff example_repo ''/repo'' [''--'', ''existing.txt''] = Some ''U'' \<and>
   fst (getFileDiff example_repo repo_host ''/repo'' ''/repo'' ''existing.txt'') = ''S'' @ [CHR 0x0A] @ ''U'' \<and>
   prefix (''/repo'' @ ''/'') (resolve (cwd repo_host) [''/repo'', ''new-file.txt'']) \<and>
   git_diff example_repo ''/repo'' [''--cached'', ''--'', ''new-file.txt''] = Some [] \<and>
   git_diff example_repo ''/repo'' [''--'', ''new-file.txt''] = Some [] \<and>
   readFileSync repo_host (join ''/repo'' ''new-file.txt'') = Some (''brand new'' @ [CHR 0x0A]) \<and>
   split_on CHR 0x0A (fst (getFileDiff example_repo repo_host ''/repo'' ''/repo'' ''new-file.txt''))
     = [''--- /dev/null'', ''+++ b/new-file.txt'', ''@@ -0,0 +1,2 @@'', ''+brand new'', ''+'']"
proof -
  have p1: "prefix (''/repo'' @ ''/'') (resolve (cwd repo_host) [''/repo'', ''existing.txt''])"
    by code_simp
  have s1: "git_diff example_repo ''/repo'' [''--cached'', ''--'', ''existing.txt''] = Some ''S''"
    by code_simp
  have u1: "git_diff example_repo ''/repo'' [''--'', ''existing.txt''] = Some ''U''"
    by code_simp
  have p2: "prefix (''/repo'' @ ''/'') (resolve (cwd repo_host) [''/repo'', ''new-file.txt''])"
    by code_simp
  have s2: "git_diff example_repo ''/repo'' [''--cached'', ''--'', ''new-file.txt''] = Some []"
    by code_simp
  have u2: "git_diff example_repo ''/repo'' [''--'', ''new-file.txt''] = Some []"
    by code_simp
  have r2: "readFileSync repo_host (join ''/repo'' ''new-file.txt'') = Some (''brand new'' @ [CHR 0x0A])"
    by code_simp
  have n2: "digits (length (split_on CHR 0x0A (''brand new'' @ [CHR 0x0A]))) = ''2''"
    by code_simp
  from getFileDiff_cases [OF disjI1 [OF p1] s1 u1]
  have 1: "fst (getFileDiff example_repo repo_host ''/repo'' ''/repo'' ''existing.txt'') = ''S'' @ [CHR 0x0A] @ ''U''"
    by simp
  from getFileDiff_cases [OF disjI1 [OF p2] s2 u2] r2 n2
  have 2: "split_on CHR 0x0A (fst (getFileDiff example_repo repo_host ''/repo'' ''/repo'' ''new-file.txt''))
     = [''--- /dev/null'', ''+++ b/new-file.txt'', ''@@ -0,0 +1,2 @@'', ''+brand new'', ''+'']"
    by simp
  from p1 s1 u1 1 p2 s2 u2 r2 2 show ?thesis by blast
qed

subsection \<open>mapStatus\<close>

lemma paths_dedupe:
  "set (map path (dedupe seen fs)) = set (map path fs) - set seen"
  by (induction seen fs rule: dedupe.induct) auto

lemma distinct_dedupe: "distinct (map path (dedupe seen fs))"
  by (induction seen fs rule: dedupe.induct) (auto simp: paths_dedupe simp del: set_map)

lemma dedupe_first:
  "f \<in> set (dedupe seen fs) \<Longrightarrow> find (\<lambda>x. path x = path f) fs = Some f"
proof (induction seen fs rule: dedupe.induct)
  case (1 seen)
  then show ?case by simp
next
  case (2 seen x fs)
  show ?case
  proof (cases "path x \<in> set seen")
    case True
    with "2.prems" have m: "f \<in> set (dedupe seen fs)" by simp
    then have "path f \<in> set (map path (dedupe seen fs))" by simp
    then have "path f \<notin> set seen" unfolding paths_dedupe by simp
    with True have "path x \<noteq> path f" by auto
    with "2.IH"(1) [OF True m] show ?thesis by simp
  next
    case False
    show ?thesis
    proof (cases "f = x")
      case True
      then show ?thesis by simp
    next
      case ne: False
      with False "2.prems" have m: "f \<in> set (dedupe (path x # seen) fs)" by simp
      then have "path f \<in> set (map path (dedupe (path x # seen) fs))" by simp
      then have "path x \<noteq> path f" unfolding paths_dedupe by auto
      with "2.IH"(2) [OF False m] show ?thesis by simp
    qed
  qed
qed

lemma paths_insert_by:
  "map path (insert_by lc x ys) \<in> {zs. set zs = insert (path x) (set (map path ys))}"
  by (induction ys) auto

lemma distinct_insert_by:
  "distinct (map path (insert_by lc x ys)) \<longleftrightarrow> path x \<notin> set (map path ys) \<and> distinct (map path ys)"
  by (induction ys) (auto simp: set_insert_by)

lemma distinct_sort_by_path:
  "distinct (map path (sort_by_path lc fs)) \<longleftrightarrow> distinct (map path fs)"
  unfolding sort_by_path_def
  by (induction fs) (auto simp: distinct_insert_by set_sort_by_path [unfolded sort_by_path_def])

lemma sorted_insert_by:
  assumes total: "\<And>a b. lc a b \<le> 0 \<or> lc b a \<le> 0"
    and trans: "\<And>a b c. lc a b \<le> 0 \<Longrightarrow> lc b c \<le> 0 \<Longrightarrow> lc a c \<le> 0"
  shows "sorted_wrt (\<lambda>a b. lc (path a) (path b) \<le> 0) ys \<Longrightarrow>
         sorted_wrt (\<lambda>a b. lc (path a) (path b) \<le> 0) (insert_by lc x ys)"
proof (induction ys)
  case Nil
  show ?case by simp
next
  case (Cons y ys)
  show ?case
  proof (cases "lc (path x) (path y) \<le> 0")
    case True
    with Cons.prems trans show ?thesis by auto
  next
    case False
    with total have "lc (path y) (path x) \<le> 0" by blast
    with False Cons show ?thesis by (auto simp: set_insert_by)
  qed
qed

lemma sorted_sort_by_path:
  assumes "\<And>a b. lc a b \<le> 0 \<or> lc b a \<le> 0"
    and "\<And>a b c. lc a b \<le> 0 \<Longrightarrow> lc b c \<le> 0 \<Longrightarrow> lc a c \<le> 0"
  shows "sorted_wrt (\<lambda>a b. lc (path a) (path b) \<le> 0) (sort_by_path lc fs)"
  unfolding sort_by_path_def
  by (induction fs) (auto intro: sorted_insert_by [OF assms])

lemma path_push [simp]: "path (push st p x) = p"
  by (simp add: push_def split: option.splits)

lemma status_push [simp]: "status (push st p x) = x"
  by (simp add: push_def split: option.splits)

lemma paths_pushed:
  "set (map path (pushed r st)) =
     set (modified r) \<union> set (created r) \<union> set (deleted r) \<union> snd ` set (renamed r) \<union> set (not_added r)"
  by (simp add: pushed_def comp_def image_Un [symmetric] Un_assoc image_image)

lemma find_append:
  "find P (xs @ ys) = (case find P xs of None \<Rightarrow> find P ys | Some x \<Rightarrow> Some x)"
  by (induction xs) auto

lemma find_map_push:
  "find (\<lambda>x. path x = p) (map (\<lambda>f. push st (k f) tag) xs) =
     (if p \<in> k ` set xs then Some (push st p tag) else None)"
  by (induction xs) auto

text \<open>The entry that \<open>mapStatus\<close> keeps for a path: the one of the first category that has it.\<close>

lemma first_pushed:
  "find (\<lambda>x. path x = p) (pushed r st) =
     (if p \<in> set (modified r) then Some (push st p ''M'')
      else if p \<in> set (created r) then Some (push st p ''A'')
      else if p \<in> set (deleted r) then Some (push st p ''D'')
      else if p \<in> snd ` set (renamed r) then Some (push st p ''R'')
      else if p \<in> set (not_added r) then Some (push st p ''?'')
      else None)"
  using find_map_push [of p st "\<lambda>f. f" "''M''" "modified r"]
    find_map_push [of p st "\<lambda>f. f" "''A''" "created r"]
    find_map_push [of p st "\<lambda>f. f" "''D''" "deleted r"]
    find_map_push [of p st snd "''R''" "renamed r"]
    find_map_push [of p st "\<lambda>f. f" "''?''" "not_added r"]
  by (simp add: pushed_def find_append)

lemma mapStatus_entry:
  "f \<in> set (mapStatus lc r st) \<longleftrightarrow> find (\<lambda>x. path x = path f) (pushed r st) = Some f"
proof
  assume "f \<in> set (mapStatus lc r st)"
  then show "find (\<lambda>x. path x = path f) (pushed r st) = Some f"
    by (simp add: mapStatus_def set_sort_by_path dedupe_first)
next
  assume a: "find (\<lambda>x. path x = path f) (pushed r st) = Some f"
  then have "path f \<in> set (map path (pushed r st))"
    by (auto simp: find_Some_iff)
  then have "path f \<in> set (map path (dedupe [] (pushed r st)))"
    by (simp add: paths_dedupe del: set_map)
  then obtain f' where f': "f' \<in> set (dedupe [] (pushed r st))" "path f' = path f"
    by auto
  from dedupe_first [OF f'(1)] f'(2) a have "f' = f" by simp
  with f'(1) show "f \<in> set (mapStatus lc r st)"
    by (simp add: mapStatus_def set_sort_by_path)
qed


text \<open>
  C8, as the code has it. The list of \<open>mapStatus\<close> has exactly the paths of the modified,
  created, deleted and untracked files and the destination paths of the renamed ones; no
  path stands twice; the entry of a path carries the status of the first category that has
  the path (\<open>M\<close>, \<open>A\<close>, \<open>D\<close>, \<open>R\<close>, \<open>?\<close> in this order); and the list is sorted by
  path in the order of the comparison \<open>localeCompare\<close> of the host, a total and
  transitive comparison.
\<close>

theorem mapStatus_union_dedup_sorted:
  assumes total: "\<And>a b. lc a b \<le> 0 \<or> lc b a \<le> 0"
    and trans: "\<And>a b c. lc a b \<le> 0 \<Longrightarrow> lc b c \<le> 0 \<Longrightarrow> lc a c \<le> 0"
  shows "set (map path (mapStatus lc r st)) =
           set (modified r) \<union> set (created r) \<union> set (deleted r) \<union> snd ` set (renamed r)
           \<union> set (not_added r) \<and>
         distinct (map path (mapStatus lc r st)) \<and>
         (\<forall>f \<in> set (mapStatus lc r st).
            find (\<lambda>x. path x = path f) (pushed r st) = Some f \<and>
            status f =
              (if path f \<in> set (modified r) then ''M''
               else if path f \<in> set (created r) then ''A''
               else if path f \<in> set (deleted r) then ''D''
               else if path f \<in> snd ` set (renamed r) then ''R''
               else ''?'')) \<and>
         sorted_wrt (\<lambda>a b. lc (path a) (path b) \<le> 0) (mapStatus lc r st)"
proof -
  have paths: "set (map path (mapStatus lc r st)) =
           set (modified r) \<union> set (created r) \<union> set (deleted r) \<union> snd ` set (renamed r)
           \<union> set (not_added r)"
  proof -
    have "set (map path (mapStatus lc r st)) = set (map path (dedupe [] (pushed r st)))"
      by (simp add: mapStatus_def set_sort_by_path)
    also have "\<dots> = set (map path (pushed r st))"
      by (simp only: paths_dedupe) simp
    finally show ?thesis by (simp only: paths_pushed)
  qed
  have dist: "distinct (map path (mapStatus lc r st))"
    by (simp add: mapStatus_def distinct_sort_by_path distinct_dedupe)
  have first: "find (\<lambda>x. path x = path f) (pushed r st) = Some f \<and>
            status f =
              (if path f \<in> set (modified r) then ''M''
               else if path f \<in> set (created r) then ''A''
               else if path f \<in> set (deleted r) then ''D''
               else if path f \<in> snd ` set (renamed r) then ''R''
               else ''?'')" if "f \<in> set (mapStatus lc r st)" for f
  proof -
    from that have e: "find (\<lambda>x. path x = path f) (pushed r st) = Some f"
      by (simp add: mapStatus_entry)
    then show ?thesis
      unfolding first_pushed by (auto split: if_splits dest: arg_cong [where f = status])
  qed
  have srt: "sorted_wrt (\<lambda>a b. lc (path a) (path b) \<le> 0) (mapStatus lc r st)"
    unfolding mapStatus_def by (rule sorted_sort_by_path [OF total trans])
  from paths dist first srt show ?thesis by blast
qed

text \<open>
  With a comparison that reads capital letters as small ones the list is not in the
  lexicographic order of the paths: \<open>package.json\<close> stands before \<open>README.md\<close>.
\<close>

theorem mapStatus_union_dedup_sorted_counterexample:
  "mapStatus caseless_compare mixed_status [] =
     [\<lparr>path = ''Makefile'', status = ''M'', insertions = 0, deletions = 0\<rparr>,
      \<lparr>path = ''package.json'', status = ''M'', insertions = 0, deletions = 0\<rparr>,
      \<lparr>path = ''README.md'', status = ''M'', insertions = 0, deletions = 0\<rparr>] \<and>
   \<not> sorted (map path (mapStatus caseless_compare mixed_status [])) \<and>
   ''README.md'' < ''package.json''"
  by code_simp

theorem mapStatus_union_dedup_sorted_witness:
  "mapStatus caseless_compare mixed_status [] =
     [\<lparr>path = ''Makefile'', status = ''M'', insertions = 0, deletions = 0\<rparr>,
      \<lparr>path = ''package.json'', status = ''M'', insertions = 0, deletions = 0\<rparr>,
      \<lparr>path = ''README.md'', status = ''M'', insertions = 0, deletions = 0\<rparr>] \<and>
   distinct (map path (mapStatus caseless_compare mixed_status [])) \<and>
   sorted_wrt (\<lambda>a b. caseless_compare (path a) (path b) \<le> 0)
     (mapStatus caseless_compare mixed_status [])"
proof -
  have v: "mapStatus caseless_compare mixed_status [] =
     [\<lparr>path = ''Makefile'', status = ''M'', insertions = 0, deletions = 0\<rparr>,
      \<lparr>path = ''package.json'', status = ''M'', insertions = 0, deletions = 0\<rparr>,
      \<lparr>path = ''README.md'', status = ''M'', insertions = 0, deletions = 0\<rparr>]"
    by code_simp
  have le: "caseless_compare a b \<le> 0 \<longleftrightarrow> fold_case a \<le> fold_case b" for a b
    by (auto simp: caseless_compare_def)
  have t: "caseless_compare a b \<le> 0 \<or> caseless_compare b a \<le> 0" for a b
    unfolding le by (rule linear)
  have tr: "caseless_compare a b \<le> 0 \<Longrightarrow> caseless_compare b c \<le> 0 \<Longrightarrow> caseless_compare a c \<le> 0"
    for a b c
    unfolding le by (rule order_trans)
  note inst = mapStatus_union_dedup_sorted [of caseless_compare mixed_status "[]"]
  have d: "distinct (map path (mapStatus caseless_compare mixed_status []))"
    by (rule inst [THEN conjunct2, THEN conjunct1]) (rule t, erule (1) tr)
  have s: "sorted_wrt (\<lambda>a b. caseless_compare (path a) (path b) \<le> 0)
           (mapStatus caseless_compare mixed_status [])"
    by (rule inst [THEN conjunct2, THEN conjunct2, THEN conjunct2]) (rule t, erule (1) tr)
  from v d s show ?thesis by blast
qed

subsection \<open>Untracked files\<close>

lemma map_of_countUntracked:
  "map_of (countUntracked h root st ps) p =
     (if p \<in> set ps then
        (case readFileSync h (join root p) of
           Some content \<Rightarrow> Some (int (length (split_on CHR 0x0A content)), 0)
         | None \<Rightarrow> map_of st p)
      else map_of st p)"
  by (induction ps arbitrary: st) (auto simp: update_conv' split: option.splits)

lemma map_of_accumulate_None:
  "map_of st p = None \<Longrightarrow> \<forall>i d. DiffResultTextFile p i d \<notin> set fs \<Longrightarrow>
     map_of (accumulate st fs) p = None"
proof (induction st fs rule: accumulate.induct)
  case (1 stats)
  then show ?case by simp
next
  case (2 stats f fs)
  then show ?case by simp
next
  case (3 stats f i d fs)
  from "3.prems" have "f \<noteq> p" by auto
  with 3 show ?case
    by (cases "map_of stats f") (auto simp: update_conv' split: prod.splits)
qed

lemma line_count_split:
  "content \<noteq> [] \<Longrightarrow> last content \<noteq> CHR 0x0A \<Longrightarrow>
     length (split_on CHR 0x0A content) = line_count content"
  by (simp add: length_split_on line_count_def)

lemma stats_getDiffStats:
  "diffSummary g d [''--cached''] = Some a \<Longrightarrow> diffSummary g d [] = Some b \<Longrightarrow>
     stats (fst (getDiffStats g h d root ps)) = countUntracked h root (accumulate (accumulate [] a) b) ps"
  by (simp add: getDiffStats_def Let_def)

lemma statusRoute_body:
  "fst (ensureGit g projectRoot s) = Some (d, root) \<Longrightarrow> git_status g d = Some r \<Longrightarrow>
     body (fst (statusRoute lc g h projectRoot ''GET'' s)) =
       StatusBody (mapStatus lc r (stats (fst (getDiffStats g h d root (not_added r))))) True
         (Some (totalInsertions (fst (getDiffStats g h d root (not_added r)))))
         (Some (totalDeletions (fst (getDiffStats g h d root (not_added r)))))"
  by (cases "ensureGit g projectRoot s"; cases "getDiffStats g h d root (not_added r)")
     (simp add: statusRoute_def)

lemma mapStatus_has_entry:
  assumes "p \<in> set (modified r) \<union> set (created r) \<union> set (deleted r) \<union> snd ` set (renamed r)
             \<union> set (not_added r)"
  shows "\<exists>f \<in> set (mapStatus lc r st). path f = p \<and>
           (\<forall>f' \<in> set (mapStatus lc r st). path f' = p \<longrightarrow> f' = f) \<and>
           f = push st p (status f) \<and>
           (p \<notin> set (modified r) \<union> set (created r) \<union> set (deleted r) \<union> snd ` set (renamed r)
              \<longrightarrow> status f = ''?'')"
proof -
  from assms have "find (\<lambda>x. path x = p) (pushed r st) \<noteq> None"
    by (auto simp: first_pushed)
  then obtain f where f: "find (\<lambda>x. path x = p) (pushed r st) = Some f"
    by auto
  then have pf: "path f = p" by (auto simp: find_Some_iff)
  with f have m: "f \<in> set (mapStatus lc r st)" by (simp add: mapStatus_entry)
  have u: "f' = f" if "f' \<in> set (mapStatus lc r st)" "path f' = p" for f'
    using that f by (simp add: mapStatus_entry)
  from f have sh: "f = push st p (status f)"
    unfolding first_pushed by (auto split: if_splits)
  from f have q: "status f = ''?''"
    if "p \<notin> set (modified r) \<union> set (created r) \<union> set (deleted r) \<union> snd ` set (renamed r)"
    using that unfolding first_pushed by (auto split: if_splits)
  from m pf u sh q show ?thesis by blast
qed


text \<open>
  C6, as the code has it. Let the status route reach a repository, and let the status
  call and both diff summaries succeed. Every untracked path then has exactly one entry in
  the list. If the file can be read, the entry has no deletions, and its insertions are
  the file's line count when the content is not empty and does not end with a newline. If
  the read fails, the entry has the counts of the diff summaries alone: zero when they do
  not list the path. The entry has the status \<open>?\<close> when the path is in no other category.
\<close>

theorem untracked_insertions:
  assumes "fst (ensureGit g projectRoot s) = Some (d, root)"
    and "git_status g d = Some r"
    and "diffSummary g d [''--cached''] = Some a"
    and "diffSummary g d [] = Some b"
    and "p \<in> set (not_added r)"
  shows "\<exists>fs i dl. body (fst (statusRoute lc g h projectRoot ''GET'' s)) = StatusBody fs True i dl \<and>
          (\<exists>f \<in> set fs. path f = p \<and> (\<forall>f' \<in> set fs. path f' = p \<longrightarrow> f' = f) \<and>
             (case readFileSync h (join root p) of
                Some content \<Rightarrow>
                  deletions f = 0 \<and>
                  (content \<noteq> [] \<and> last content \<noteq> CHR 0x0A \<longrightarrow> insertions f = int (line_count content))
              | None \<Rightarrow>
                  ((\<forall>i d. DiffResultTextFile p i d \<notin> set a \<union> set b) \<longrightarrow>
                     insertions f = 0 \<and> deletions f = 0)) \<and>
             (p \<notin> set (modified r) \<union> set (created r) \<union> set (deleted r) \<union> snd ` set (renamed r)
                \<longrightarrow> status f = ''?''))"
proof -
  let ?st = "stats (fst (getDiffStats g h d root (not_added r)))"
  have st: "?st = countUntracked h root (accumulate (accumulate [] a) b) (not_added r)"
    using assms(3,4) by (rule stats_getDiffStats)
  from assms(5) have "p \<in> set (modified r) \<union> set (created r) \<union> set (deleted r)
      \<union> snd ` set (renamed r) \<union> set (not_added r)" by simp
  from mapStatus_has_entry [OF this, of lc ?st]
  obtain f where f: "f \<in> set (mapStatus lc r ?st)" "path f = p"
    "\<forall>f' \<in> set (mapStatus lc r ?st). path f' = p \<longrightarrow> f' = f"
    "f = push ?st p (status f)"
    "p \<notin> set (modified r) \<union> set (created r) \<union> set (deleted r) \<union> snd ` set (renamed r)
       \<longrightarrow> status f = ''?''"
    by blast
  have m: "map_of ?st p =
     (case readFileSync h (join root p) of
        Some content \<Rightarrow> Some (int (length (split_on CHR 0x0A content)), 0)
      | None \<Rightarrow> map_of (accumulate (accumulate [] a) b) p)"
    using assms(5) by (simp add: st map_of_countUntracked)
  have counts: "case readFileSync h (join root p) of
                Some content \<Rightarrow>
                  deletions f = 0 \<and>
                  (content \<noteq> [] \<and> last content \<noteq> CHR 0x0A \<longrightarrow> insertions f = int (line_count content))
              | None \<Rightarrow>
                  ((\<forall>i d. DiffResultTextFile p i d \<notin> set a \<union> set b) \<longrightarrow>
                     insertions f = 0 \<and> deletions f = 0)"
  proof (cases "readFileSync h (join root p)")
    case None
    have "map_of (accumulate (accumulate [] a) b) p = None"
      if "\<forall>i d. DiffResultTextFile p i d \<notin> set a \<union> set b"
      using that by (intro map_of_accumulate_None) auto
    with None m have "(\<forall>i d. DiffResultTextFile p i d \<notin> set a \<union> set b) \<longrightarrow> map_of ?st p = None"
      by simp
    then have "(\<forall>i d. DiffResultTextFile p i d \<notin> set a \<union> set b) \<longrightarrow>
        insertions (push ?st p (status f)) = 0 \<and> deletions (push ?st p (status f)) = 0"
      by (simp add: push_def)
    with f(4) None show ?thesis by simp
  next
    case (Some content)
    with m have "map_of ?st p = Some (int (length (split_on CHR 0x0A content)), 0)" by simp
    then have "insertions (push ?st p (status f)) = int (length (split_on CHR 0x0A content)) \<and>
        deletions (push ?st p (status f)) = 0"
      by (simp add: push_def)
    with f(4) have "insertions f = int (length (split_on CHR 0x0A content)) \<and> deletions f = 0"
      by simp
    with Some show ?thesis by (simp add: line_count_split)
  qed
  from statusRoute_body [OF assms(1,2), of lc h] f(1,2,3,5) counts
  show ?thesis by blast
qed

text \<open>
  When a diff summary fails, the untracked file \<open>notes.txt\<close>, which can be read and has
  two lines, is listed with no insertions.
\<close>

theorem untracked_insertions_counterexample:
  "''notes.txt'' \<in> set (not_added example_status) \<and>
   readFileSync repo_host (join ''/repo'' ''notes.txt'') = Some (''one'' @ [CHR 0x0A] @ ''two'') \<and>
   line_count (''one'' @ [CHR 0x0A] @ ''two'') = 2 \<and>
   body (fst (statusRoute codeunit_compare no_summary repo_host ''/repo'' ''GET'' initial))
     = StatusBody
         [\<lparr>path = ''both.txt'', status = ''M'', insertions = 0, deletions = 0\<rparr>,
          \<lparr>path = ''existing.txt'', status = ''M'', insertions = 0, deletions = 0\<rparr>,
          \<lparr>path = ''locked.txt'', status = ''?'', insertions = 0, deletions = 0\<rparr>,
          \<lparr>path = ''moved.txt'', status = ''R'', insertions = 0, deletions = 0\<rparr>,
          \<lparr>path = ''new-file.txt'', status = ''?'', insertions = 0, deletions = 0\<rparr>,
          \<lparr>path = ''notes.txt'', status = ''?'', insertions = 0, deletions = 0\<rparr>]
         True (Some 0) (Some 0)"
  by code_simp

text \<open>
  The count that \<open>getDiffStats\<close> records is the number of pieces between newlines: for a
  file whose one line ends with a newline it is 2.
\<close>

lemma untracked_trailing_newline:
  "readFileSync repo_host (join ''/repo'' ''new-file.txt'') = Some (''brand new'' @ [CHR 0x0A]) \<and>
   line_count (''brand new'' @ [CHR 0x0A]) = 1 \<and>
   map_of (stats (fst (getDiffStats example_repo repo_host ''/repo'' ''/repo'' [''new-file.txt'']))) ''new-file.txt''
     = Some (2, 0)"
  by code_simp

theorem untracked_insertions_witness:
  "fst (ensureGit example_repo ''/repo'' initial) = Some (''/repo'', ''/repo'') \<and>
   git_status example_repo ''/repo'' = Some example_status \<and>
   diffSummary example_repo ''/repo'' [''--cached''] = Some [DiffResultBinaryFile ''logo.png''] \<and>
   diffSummary example_repo ''/repo'' [] = Some [DiffResultTextFile ''existing.txt'' 1 0] \<and>
   ''notes.txt'' \<in> set (not_added example_status) \<and>
   readFileSync repo_host (join ''/repo'' ''notes.txt'') = Some (''one'' @ [CHR 0x0A] @ ''two'') \<and>
   (\<exists>fs i dl. body (fst (statusRoute codeunit_compare example_repo repo_host ''/repo'' ''GET'' initial))
        = StatusBody fs True i dl \<and>
      (\<exists>f \<in> set fs. path f = ''notes.txt'' \<and> deletions f = 0 \<and> insertions f = 2 \<and> status f = ''?''))"
proof -
  have e: "fst (ensureGit example_repo ''/repo'' initial) = Some (''/repo'', ''/repo'')"
    by code_simp
  have s: "git_status example_repo ''/repo'' = Some example_status"
    by (simp add: example_repo_def)
  have a: "diffSummary example_repo ''/repo'' [''--cached''] = Some [DiffResultBinaryFile ''logo.png'']"
    by (simp add: example_repo_def)
  have b: "diffSummary example_repo ''/repo'' [] = Some [DiffResultTextFile ''existing.txt'' 1 0]"
    by (simp add: example_repo_def)
  have p: "''notes.txt'' \<in> set (not_added example_status)"
    by (simp add: example_status_def)
  have r: "readFileSync repo_host (join ''/repo'' ''notes.txt'') = Some (''one'' @ [CHR 0x0A] @ ''two'')"
    by code_simp
  have l: "line_count (''one'' @ [CHR 0x0A] @ ''two'') = 2"
    by code_simp
  have q: "''notes.txt'' \<notin> set (modified example_status) \<union> set (created example_status)
      \<union> set (deleted example_status) \<union> snd ` set (renamed example_status)"
    by (simp add: example_status_def)
  from untracked_insertions [OF e s a b p, of codeunit_compare repo_host] r l q
  have "\<exists>fs i dl. body (fst (statusRoute codeunit_compare example_repo repo_host ''/repo'' ''GET'' initial))
        = StatusBody fs True i dl \<and>
      (\<exists>f \<in> set fs. path f = ''notes.txt'' \<and> deletions f = 0 \<and> insertions f = 2 \<and> status f = ''?'')"
    by (simp del: append.simps) blast
  with e s a b p r show ?thesis by blast
qed

section \<open>Properties of the walk of collectFiles\<close>

subsection \<open>Paths and their segments\<close>

lemma valid_name_no_slash: "valid_name s \<Longrightarrow> CHR ''/'' \<notin> set s"
  by (simp add: valid_name_def)

lemma split_join_segments:
  "xs \<noteq> [] \<Longrightarrow> \<forall>x \<in> set xs. CHR ''/'' \<notin> set x \<Longrightarrow> split_on CHR ''/'' (join_with ''/'' xs) = xs"
  using split_on_join_with [of xs "CHR ''/''"] by simp

lemma split_abs_path:
  "\<forall>x \<in> set ds. valid_name x \<Longrightarrow>
     split_on CHR ''/'' (abs_path ds) = [] # (if ds = [] then [[]] else ds)"
  by (auto simp: abs_path_def split_join_segments valid_name_no_slash)

lemma norm_segs_valid:
  "\<forall>x \<in> set xs. x = [] \<or> valid_name x \<Longrightarrow>
     norm_segs up acc xs = acc @ filter (\<lambda>s. s \<noteq> []) xs"
  by (induction xs arbitrary: acc) (auto simp: valid_name_def)

lemma join_with_Nil_iff:
  "join_with sep xs = [] \<Longrightarrow> \<forall>x \<in> set xs. x = []"
  by (induction sep xs rule: join_with.induct) auto

lemma path_segments_abs_path:
  "\<forall>x \<in> set ds. valid_name x \<Longrightarrow> path_segments (abs_path ds) = ds"
  by (auto simp: path_segments_def split_abs_path valid_name_def filter_id_conv)

lemma abs_path_inject:
  "\<forall>x \<in> set ds. valid_name x \<Longrightarrow> \<forall>x \<in> set es. valid_name x \<Longrightarrow>
     abs_path ds = abs_path es \<Longrightarrow> ds = es"
  using path_segments_abs_path by metis

lemma normalizeString_abs_path:
  assumes "\<forall>x \<in> set ds. valid_name x" "valid_name name"
  shows "normalizeString (abs_path ds @ ''/'' @ name) False = join_with ''/'' (ds @ [name])"
proof -
  have "split_on CHR ''/'' (abs_path ds @ CHR ''/'' # name)
          = ([] # (if ds = [] then [[]] else ds)) @ [name]"
    using assms by (simp add: split_on_append_sep split_abs_path split_on_no_sep valid_name_no_slash)
  moreover have "norm_segs False [] (([] # (if ds = [] then [[]] else ds)) @ [name]) = ds @ [name]"
    using assms by (subst norm_segs_valid) (auto simp: valid_name_def filter_id_conv)
  ultimately show ?thesis by (simp add: normalizeString_def)
qed

lemma join_abs_path:
  assumes "\<forall>x \<in> set ds. valid_name x" "valid_name name"
  shows "join (abs_path ds) name = abs_path (ds @ [name])"
proof -
  from assms(2) have n1: "name \<noteq> []" and ns: "CHR ''/'' \<notin> set name"
    by (simp_all add: valid_name_def)
  from last_in_set [OF n1] ns have n2: "last name \<noteq> CHR ''/''"
    by metis
  note n = n1 n2
  have ne: "join_with ''/'' (ds @ [name]) \<noteq> []"
    using n(1) join_with_Nil_iff [of "''/''" "ds @ [name]"] by auto
  have "join (abs_path ds) name = normalize_path (abs_path ds @ ''/'' @ name)"
    using n by (simp add: join_def abs_path_def)
  also have "\<dots> = ''/'' @ join_with ''/'' (ds @ [name])"
    using n ne normalizeString_abs_path [OF assms]
    by (simp add: normalize_path_def Let_def isAbsolute_def abs_path_def)
  finally show ?thesis by (simp add: abs_path_def)
qed

lemma resolve_abs_path:
  assumes "\<forall>x \<in> set qs. valid_name x"
  shows "resolve wd [abs_path qs] = abs_path qs"
proof -
  have raw: "resolve_raw (rev [wd, abs_path qs]) = abs_path qs @ ''/''"
    by (simp add: isAbsolute_def abs_path_def)
  have "split_on CHR ''/'' (abs_path qs @ ''/'') = ([] # (if qs = [] then [[]] else qs)) @ [[]]"
    using assms split_on_append_sep [of "CHR ''/''" "abs_path qs" "[]"]
    by (simp add: split_abs_path)
  moreover have "norm_segs False [] (([] # (if qs = [] then [[]] else qs)) @ [[]]) = qs"
    using assms by (subst norm_segs_valid) (auto simp: valid_name_def filter_id_conv)
  ultimately have "normalizeString (abs_path qs @ ''/'') False = join_with ''/'' qs"
    by (simp add: normalizeString_def)
  then show ?thesis
    unfolding resolve_def raw by (simp add: isAbsolute_def abs_path_def)
qed


lemma norm_segs_all_valid:
  "\<forall>x \<in> set acc. valid_name x \<Longrightarrow> \<forall>x \<in> set xs. CHR ''/'' \<notin> set x \<Longrightarrow>
     \<forall>x \<in> set (norm_segs False acc xs). valid_name x"
proof (induction xs arbitrary: acc)
  case Nil
  then show ?case by simp
next
  case (Cons s ss)
  have b: "\<forall>x \<in> set (butlast acc). valid_name x"
    using Cons.prems(1) by (auto dest: in_set_butlastD)
  have e: "\<forall>x \<in> set (acc @ [s]). valid_name x" if "s \<noteq> []" "s \<noteq> ''.''" "s \<noteq> ''..''"
    using that Cons.prems by (auto simp: valid_name_def)
  from Cons.prems(2) have r: "\<forall>x \<in> set ss. CHR ''/'' \<notin> set x" by simp
  show ?case
    using Cons.IH [OF Cons.prems(1) r] Cons.IH [OF b r] Cons.IH [OF e r]
    by (simp del: set_append)
qed

lemma resolve_raw_absolute:
  "isAbsolute wd \<Longrightarrow> isAbsolute (resolve_raw (xs @ [wd]))"
  by (induction xs) (auto simp: isAbsolute_def prefix_def)

lemma resolve_is_abs_path:
  assumes "isAbsolute wd"
  shows "\<exists>ds. resolve wd args = abs_path ds \<and> (\<forall>x \<in> set ds. valid_name x)"
proof -
  let ?raw = "resolve_raw (rev (wd # args))"
  let ?ds = "norm_segs False [] (split_on CHR ''/'' ?raw)"
  from resolve_raw_absolute [OF assms, of "rev args"] have a: "isAbsolute ?raw" by simp
  then have "resolve wd args = abs_path ?ds"
    by (simp add: resolve_def normalizeString_def abs_path_def)
  moreover have "\<forall>x \<in> set ?ds. valid_name x"
    by (rule norm_segs_all_valid) (auto dest: split_on_pieces)
  ultimately show ?thesis by blast
qed

lemma strip_common_same [simp]: "strip_common xs xs = ([], [])"
  by (induction xs) auto

lemma relative_abs_path:
  assumes r: "resolve wd [root] = abs_path rs" "\<forall>x \<in> set rs. valid_name x"
    and q: "\<forall>x \<in> set qs. valid_name x"
  shows "relative wd root (abs_path qs) =
           (case strip_common rs qs of
              (fs, ts) \<Rightarrow> join_with ''/'' (replicate (length fs) ''..'' @ ts))"
proof (cases "rs = qs")
  case True
  with r resolve_abs_path [OF q, of wd] show ?thesis
    by (simp add: relative_def)
next
  case False
  with abs_path_inject [OF r(2) q] have ne: "abs_path rs \<noteq> abs_path qs" by blast
  have "root \<noteq> abs_path qs"
  proof
    assume "root = abs_path qs"
    with r(1) resolve_abs_path [OF q, of wd] ne show False by simp
  qed
  with ne r resolve_abs_path [OF q, of wd] show ?thesis
    by (simp add: relative_def Let_def path_segments_abs_path q)
qed

lemma strip_common_append:
  "strip_common rs (ds @ ns) =
     (case strip_common rs ds of
        (fs, ts) \<Rightarrow> if ts = [] then strip_common fs ns else (fs, ts @ ns))"
  by (induction rs ds rule: strip_common.induct) auto

lemma strip_common_suffix:
  "strip_common xs ys = (fs, ts) \<Longrightarrow> suffix ts ys"
  by (induction xs ys arbitrary: fs ts rule: strip_common.induct)
     (auto split: if_splits intro: suffix_ConsI)

subsection \<open>The walk\<close>

text \<open>
  Every path that the walk of a directory returns is the path, relative to the project
  root, of a chain of entries below the directory, and the walk has entered no directory
  of the chain that has a skipped name.
\<close>

lemma collectFiles_chain:
  shows "wf_node n \<Longrightarrow> (\<forall>ds p. dir = abs_path ds \<and> (\<forall>x \<in> set ds. valid_name x) \<and>
        p \<in> set (collectFiles wd n dir root) \<longrightarrow>
        (\<exists>ns. ns \<noteq> [] \<and> (\<forall>x \<in> set ns. valid_name x) \<and>
              (\<forall>x \<in> set (butlast ns). \<not> skipped_name x) \<and>
              p = relative wd root (abs_path (ds @ ns))))"
    and "wf_entries es \<Longrightarrow> (\<forall>ds p. dir' = abs_path ds \<and> (\<forall>x \<in> set ds. valid_name x) \<and>
        p \<in> set (collectEntries wd' es dir' root') \<longrightarrow>
        (\<exists>ns. ns \<noteq> [] \<and> (\<forall>x \<in> set ns. valid_name x) \<and>
              (\<forall>x \<in> set (butlast ns). \<not> skipped_name x) \<and>
              p = relative wd' root' (abs_path (ds @ ns))))"
proof (induction wd n dir root and wd' es dir' root' rule: collectFiles_collectEntries.induct)
  case (1 wd es dir projectRoot)
  then show ?case by simp
next
  case (2 wd c dir projectRoot)
  then show ?case by simp
next
  case (3 wd dir projectRoot)
  then show ?case by simp
next
  case (4 wd dir projectRoot)
  then show ?case by simp
next
  case (5 wd dir projectRoot)
  then show ?case by simp
next
  case (6 wd name n es dir projectRoot)
  note wf = "6.prems"
  show ?case
  proof (intro impI allI)
    fix ds p
    assume h: "dir = abs_path ds \<and> (\<forall>x \<in> set ds. valid_name x) \<and>
              p \<in> set (collectEntries wd ((name, n) # es) dir projectRoot)"
    from wf have vn: "valid_name name" and wn: "wf_node n" and we: "wf_entries es" by simp_all
    from h have dir: "dir = abs_path ds" and vds: "\<forall>x \<in> set ds. valid_name x" by simp_all
    have j: "join dir name = abs_path (ds @ [name])"
      using dir join_abs_path [OF vds vn] by simp
    have vds': "\<forall>x \<in> set (ds @ [name]). valid_name x" using vds vn by simp
    from h consider
        (sub) "isDirectory (kind n)" "\<not> skipped_name name"
              "p \<in> set (collectFiles wd n (join dir name) projectRoot)"
      | (leaf) "\<not> isDirectory (kind n)" "isFile (kind n)" "p = relative wd projectRoot (join dir name)"
      | (rest) "p \<in> set (collectEntries wd es dir projectRoot)"
      by (auto simp: Let_def skipped_name_def split: if_splits)
    then show "\<exists>ns. ns \<noteq> [] \<and> (\<forall>x \<in> set ns. valid_name x) \<and>
              (\<forall>x \<in> set (butlast ns). \<not> skipped_name x) \<and>
              p = relative wd projectRoot (abs_path (ds @ ns))"
    proof cases
      case sub
      from sub(2) have "\<not> (name = ''node_modules'' \<or> name = ''.git'')"
        by (simp add: skipped_name_def)
      from "6.IH"(1) [OF refl sub(1) this wn] j vds' sub(3)
      obtain ns where ns: "ns \<noteq> []" "\<forall>x \<in> set ns. valid_name x"
        "\<forall>x \<in> set (butlast ns). \<not> skipped_name x"
        "p = relative wd projectRoot (abs_path ((ds @ [name]) @ ns))"
        by blast
      have "name # ns \<noteq> [] \<and> (\<forall>x \<in> set (name # ns). valid_name x) \<and>
            (\<forall>x \<in> set (butlast (name # ns)). \<not> skipped_name x) \<and>
            p = relative wd projectRoot (abs_path (ds @ name # ns))"
        using ns vn sub(2) by simp
      then show ?thesis by blast
    next
      case leaf
      have "[name] \<noteq> [] \<and> (\<forall>x \<in> set [name]. valid_name x) \<and>
            (\<forall>x \<in> set (butlast [name]). \<not> skipped_name x) \<and>
            p = relative wd projectRoot (abs_path (ds @ [name]))"
        using leaf(3) j vn by simp
      then show ?thesis by blast
    next
      case rest
      from "6.IH"(2) [OF refl we] dir vds rest show ?thesis by blast
    qed
  qed
qed

lemma lookup_wf: "wf_node n \<Longrightarrow> lookup n ss = Some m \<Longrightarrow> wf_node m"
proof (induction n ss rule: lookup.induct)
  case (2 es s ss)
  have sub: "wf_node c" if "wf_entries xs" "map_of xs s = Some c" for xs c
    using that by (induction xs) (auto split: if_splits)
  from "2.prems" obtain c where c: "map_of es s = Some c" "lookup c ss = Some m"
    by (auto split: option.splits)
  from "2.prems"(1) sub c(1) have "wf_node c" by simp
  from "2.IH" [OF c(1) this c(2)] show ?case .
qed simp_all

subsection \<open>The segments of the listed paths\<close>

lemma butlast_suffix_subset:
  "suffix ts ns \<Longrightarrow> ts \<noteq> [] \<Longrightarrow> set (butlast ts) \<subseteq> set (butlast ns)"
  by (auto simp: suffix_def butlast_append)

lemma dotdot_not_skipped: "\<not> skipped_name ''..''"
  by (simp add: skipped_name_def)

lemma relative_segments_clean:
  assumes r: "resolve wd [root] = abs_path rs" "\<forall>x \<in> set rs. valid_name x"
    and d: "\<forall>x \<in> set ds. valid_name x"
    and n: "ns \<noteq> []" "\<forall>x \<in> set ns. valid_name x" "\<forall>x \<in> set (butlast ns). \<not> skipped_name x"
    and clean: "\<forall>s \<in> set (split_on CHR ''/'' (relative wd root (abs_path ds))). \<not> skipped_name s"
  shows "\<forall>s \<in> set (butlast (split_on CHR ''/'' (relative wd root (abs_path (ds @ ns))))).
           \<not> skipped_name s"
proof -
  obtain fs0 ts0 where s0: "strip_common rs ds = (fs0, ts0)" by (cases "strip_common rs ds")
  from strip_common_suffix [OF s0] have suf0: "suffix ts0 ds" .
  then have v0: "\<forall>x \<in> set ts0. valid_name x" using d by (auto simp: suffix_def)
  have dn: "\<forall>x \<in> set (ds @ ns). valid_name x" using d n(2) by auto
  have rel0: "relative wd root (abs_path ds) = join_with ''/'' (replicate (length fs0) ''..'' @ ts0)"
    using relative_abs_path [OF r d] s0 by simp
  show ?thesis
  proof (cases "ts0 = []")
    case False
    let ?xs = "replicate (length fs0) ''..'' @ ts0"
    have sl: "\<forall>x \<in> set (?xs @ ns). CHR ''/'' \<notin> set x"
      using v0 n(2) by (auto dest: valid_name_no_slash)
    have "relative wd root (abs_path (ds @ ns)) = join_with ''/'' (?xs @ ns)"
      using relative_abs_path [OF r dn] s0 False by (simp add: strip_common_append)
    then have seg: "split_on CHR ''/'' (relative wd root (abs_path (ds @ ns))) = ?xs @ ns"
      using split_join_segments [OF _ sl] n(1) by simp
    have sl0: "\<forall>x \<in> set ?xs. CHR ''/'' \<notin> set x" using sl by auto
    have ne0: "?xs \<noteq> []" using False by simp
    have "split_on CHR ''/'' (relative wd root (abs_path ds)) = ?xs"
      unfolding rel0 by (rule split_join_segments [OF ne0 sl0])
    with clean have c: "\<forall>s \<in> set ?xs. \<not> skipped_name s" by simp
    have "butlast (?xs @ ns) = ?xs @ butlast ns" using n(1) by (simp only: butlast_append if_False)
    then have "set (butlast (?xs @ ns)) = set ?xs \<union> set (butlast ns)"
      by (simp only: set_append)
    with c n(3) show ?thesis unfolding seg by blast
  next
    case True
    obtain fs1 ts1 where s1: "strip_common fs0 ns = (fs1, ts1)" by (cases "strip_common fs0 ns")
    from strip_common_suffix [OF s1] have suf1: "suffix ts1 ns" .
    then have v1: "\<forall>x \<in> set ts1. valid_name x" using n(2) by (auto simp: suffix_def)
    let ?ys = "replicate (length fs1) ''..'' @ ts1"
    have sl: "\<forall>x \<in> set ?ys. CHR ''/'' \<notin> set x"
      using v1 by (auto dest: valid_name_no_slash)
    have rel: "relative wd root (abs_path (ds @ ns)) = join_with ''/'' ?ys"
      using relative_abs_path [OF r dn] s0 s1 True by (simp add: strip_common_append)
    show ?thesis
    proof (cases "?ys = []")
      case True
      then show ?thesis unfolding rel by simp
    next
      case ne: False
      have seg: "split_on CHR ''/'' (relative wd root (abs_path (ds @ ns))) = ?ys"
        unfolding rel by (rule split_join_segments [OF ne sl])
      let ?up = "replicate (length fs1) ''..''"
      have up: "set ?up \<subseteq> {''..''}" by (simp add: set_replicate_conv_if)
      have "set (butlast ?ys) \<subseteq> {''..''} \<union> set (butlast ns)"
      proof (cases "ts1 = []")
        case True
        then have "set (butlast ?ys) \<subseteq> set ?up"
          by (simp only: append_Nil2) (rule subsetI, erule in_set_butlastD)
        with up show ?thesis by blast
      next
        case False
        then have "butlast ?ys = ?up @ butlast ts1" by (simp only: butlast_append if_False)
        then have "set (butlast ?ys) = set ?up \<union> set (butlast ts1)" by (simp only: set_append)
        with up butlast_suffix_subset [OF suf1 False] show ?thesis by blast
      qed
      with n(3) dotdot_not_skipped show ?thesis unfolding seg by blast
    qed
  qed
qed

lemma set_dedup_first: "set (dedup_first seen xs) = set xs - set seen"
  by (induction seen xs rule: dedup_first.induct) auto

lemma set_resolveEditableFiles:
  "set (resolveEditableFiles h pats root) = (\<Union>a \<in> set pats. set (filesOfPattern h root a))"
  by (simp add: resolveEditableFiles_def set_dedup_first)

text \<open>
  C4, as the code has it. Let the working directory be absolute, let the entries of the
  disk have file names, and let no configured pattern have a \<open>node_modules\<close> or \<open>.git\<close>
  segment in its own path relative to the project root. Then no path of the listing has
  such a segment before its last one: the walk enters no directory of these names, at any
  depth.
\<close>

theorem listing_skips_directories:
  assumes "isAbsolute (cwd h)" and "wf_node (disk h)"
    and "\<forall>pat \<in> set patterns. \<forall>s \<in> set (split_on CHR ''/''
            (relative (cwd h) projectRoot (resolve (cwd h) [projectRoot, pat]))). \<not> skipped_name s"
  shows "\<forall>p \<in> set (resolveEditableFiles h (resolveEditablePatterns h patterns projectRoot) projectRoot).
           \<forall>s \<in> set (butlast (split_on CHR ''/'' p)). \<not> skipped_name s"
proof (intro ballI)
  fix p s
  assume p: "p \<in> set (resolveEditableFiles h (resolveEditablePatterns h patterns projectRoot) projectRoot)"
    and s: "s \<in> set (butlast (split_on CHR ''/'' p))"
  from p obtain pat where pat: "pat \<in> set patterns"
    and pf: "p \<in> set (filesOfPattern h projectRoot (resolve (cwd h) [projectRoot, pat]))"
    by (auto simp: set_resolveEditableFiles resolveEditablePatterns_def)
  let ?a = "resolve (cwd h) [projectRoot, pat]"
  from resolve_is_abs_path [OF assms(1)] obtain ds where ds: "?a = abs_path ds" "\<forall>x \<in> set ds. valid_name x"
    by blast
  from resolve_is_abs_path [OF assms(1)] obtain rs
    where rs: "resolve (cwd h) [projectRoot] = abs_path rs" "\<forall>x \<in> set rs. valid_name x"
    by blast
  from assms(3) pat have clean: "\<forall>s \<in> set (split_on CHR ''/'' (relative (cwd h) projectRoot (abs_path ds))).
      \<not> skipped_name s"
    using ds(1) by simp
  from pf consider
      (dir) n where "node_at h ?a = Some n" "p \<in> set (collectFiles (cwd h) n ?a projectRoot)"
    | (leaf) "p = relative (cwd h) projectRoot ?a"
    by (auto simp: filesOfPattern_def split: option.splits if_splits)
  then show "\<not> skipped_name s"
  proof cases
    case dir
    from dir(1) have "wf_node n"
      using lookup_wf [OF assms(2)] by (simp add: node_at_def)
    from collectFiles_chain(1) [OF this, of ?a "cwd h" projectRoot] ds dir(2)
    obtain ns where ns: "ns \<noteq> []" "\<forall>x \<in> set ns. valid_name x"
      "\<forall>x \<in> set (butlast ns). \<not> skipped_name x"
      "p = relative (cwd h) projectRoot (abs_path (ds @ ns))"
      by blast
    from relative_segments_clean [OF rs ds(2) ns(1,2,3) clean] ns(4) s show ?thesis by blast
  next
    case leaf
    with clean ds(1) s show ?thesis by (auto dest: in_set_butlastD)
  qed
qed

text \<open>
  A configured directory that lies under \<open>node_modules\<close> is walked, and its files are
  listed with that segment.
\<close>

theorem listing_skips_directories_counterexample:
  "statSync example_host (resolve (cwd example_host) [''/proj'', ''node_modules/pkg'']) = Some Directory \<and>
   resolveEditableFiles example_host
     (resolveEditablePatterns example_host [''node_modules/pkg''] ''/proj'') ''/proj''
     = [''node_modules/pkg/index.js''] \<and>
   ''node_modules'' \<in> set (split_on CHR ''/'' ''node_modules/pkg/index.js'') \<and>
   skipped_name ''node_modules''"
  by code_simp

theorem listing_skips_directories_witness:
  "isAbsolute (cwd example_host) \<and> wf_node (disk example_host) \<and>
   split_on CHR ''/'' (relative (cwd example_host) ''/proj''
      (resolve (cwd example_host) [''/proj'', ''src''])) = [''src''] \<and>
   \<not> skipped_name ''src'' \<and>
   resolveEditableFiles example_host (resolveEditablePatterns example_host [''src''] ''/proj'') ''/proj''
     = [''src/a.ts'', ''src/lib/b.ts''] \<and>
   \<not> skipped_name ''lib''"
proof -
  have a: "isAbsolute (cwd example_host)" by code_simp
  have w: "wf_node (disk example_host)" by code_simp
  have r: "split_on CHR ''/'' (relative (cwd example_host) ''/proj''
      (resolve (cwd example_host) [''/proj'', ''src''])) = [''src'']"
    by code_simp
  have s: "\<not> skipped_name ''src''" by (simp add: skipped_name_def)
  have c: "\<forall>pat \<in> set [''src'']. \<forall>s \<in> set (split_on CHR ''/''
            (relative (cwd example_host) ''/proj'' (resolve (cwd example_host) [''/proj'', pat]))).
            \<not> skipped_name s"
    using r s by simp
  have v: "resolveEditableFiles example_host (resolveEditablePatterns example_host [''src''] ''/proj'') ''/proj''
     = [''src/a.ts'', ''src/lib/b.ts'']"
    by code_simp
  have b: "butlast (split_on CHR ''/'' ''src/lib/b.ts'') = [''src'', ''lib'']" by code_simp
  from listing_skips_directories [OF a w c] v b
  have "\<not> skipped_name ''lib''" by simp
  with a w r s v show ?thesis by blast
qed

end
